theory Spec2Isabelle
  imports Main "HOL-Library.Word"
begin

unbundle bit_operations_syntax

section \<open>Data model of the decoder (mp\_load.py)\<close>

type_synonym byte = "8 word"

text \<open>
  The exceptions the module can raise.  \<open>LogicError\<close> is the \<open>Exception('Logic error')\<close>
  of \<open>_fail\<close>; \<open>StructError\<close>, \<open>IndexError\<close> and \<open>TypeError\<close> are the errors of the
  built-ins the module calls (\<open>struct.unpack\<close>, tuple indexing, \<open>ord\<close>, item assignment);
  \<open>CallbackRaised\<close> carries an exception that left a caller-supplied extension callback.
\<close>

datatype raised = AttributeError | OtherException string

datatype error =
    InsufficientDataException
  | ReservedCodeException
  | InvalidStringException
  | UnhashableKeyException
  | DuplicateKeyException
  | NotImplementedError
  | LogicError
  | StructError
  | IndexError
  | TypeError
  | CallbackRaised raised

text \<open>
  Decoded Python values.  A \<open>str\<close> is kept as its UTF-8 image (the payload it was built
  from), a \<open>float\<close> as the big-endian IEEE-754 field \<open>struct.unpack\<close> was given; a
  \<open>dict\<close> is the list of its items in insertion order, with a flag telling an
  \<open>OrderedDict\<close> from a plain \<open>dict\<close>; \<open>PExt\<close> is an \<open>Ext(type, data)\<close> object.
\<close>

datatype pyval =
    PNone
  | PBool bool
  | PInt int
  | PFloat "byte list"
  | PStr "byte list"
  | PBytes "byte list"
  | PList "pyval list"
  | PTuple "pyval list"
  | PDict bool "(pyval \<times> pyval) list"
  | PExt int "byte list"

text \<open>
  The byte source \<open>fp\<close>: the chunks it will still deliver, one per \<open>read\<close> call at most
  (a call asking for less than the next chunk gets a part of it and leaves the rest; an
  empty chunk is a call that delivers nothing), and the number of \<open>read\<close> calls made so
  far.  \<open>uio.BytesIO(s)\<close> is the source with the single chunk \<open>s\<close>.
\<close>

record source =
  pending :: "byte list list"
  reads :: nat

definition BytesIO :: "byte list \<Rightarrow> source" where
  "BytesIO s = \<lparr>pending = [s], reads = 0\<rparr>"

definition fp_read :: "source \<Rightarrow> nat \<Rightarrow> byte list \<times> source" where
  "fp_read fp n =
     (case pending fp of
        [] \<Rightarrow> ([], fp\<lparr>reads := Suc (reads fp)\<rparr>)
      | c # cs \<Rightarrow>
          if n < length c
          then (take n c, fp\<lparr>pending := drop n c # cs, reads := Suc (reads fp)\<rparr>)
          else (c, fp\<lparr>pending := cs, reads := Suc (reads fp)\<rparr>))"

subsection \<open>\<open>_read_except\<close>\<close>

function read_loop :: "source \<Rightarrow> nat \<Rightarrow> byte list \<Rightarrow> error + (byte list \<times> source)" where
  "read_loop fp n data =
     (if length data < n
      then (case fp_read fp (n - length data) of
              (chunk, fp') \<Rightarrow>
                if length chunk = 0 then Inl InsufficientDataException
                else read_loop fp' n (data @ chunk))
      else Inr (data, fp))"
  by pat_completeness auto
termination
  by (relation "measure (\<lambda>(fp, n, data). n - length data)") (auto intro: diff_less_mono2)

definition read_except :: "source \<Rightarrow> nat \<Rightarrow> error + (byte list \<times> source)" where
  "read_except fp n =
     (if n = 0 then Inr ([], fp)
      else (case fp_read fp n of
              (data, fp') \<Rightarrow>
                if length data = 0 then Inl InsufficientDataException
                else read_loop fp' n data))"

subsection \<open>\<open>struct.unpack\<close> and \<open>_re0\<close>\<close>

definition bind_e :: "error + 'a \<Rightarrow> ('a \<Rightarrow> error + 'b) \<Rightarrow> error + 'b" where
  "bind_e m f = (case m of Inl e \<Rightarrow> Inl e | Inr x \<Rightarrow> f x)"

text \<open>The formats the module uses: the size in bytes, and how the field is read.\<close>

datatype fmt = UnsignedFmt nat | SignedFmt nat | FloatFmt nat

definition struct_format :: "string \<Rightarrow> fmt option" where
  "struct_format s =
     (if s = ''B'' then Some (UnsignedFmt 1)
      else if s = ''>H'' then Some (UnsignedFmt 2)
      else if s = ''>I'' then Some (UnsignedFmt 4)
      else if s = ''>Q'' then Some (UnsignedFmt 8)
      else if s = ''b'' then Some (SignedFmt 1)
      else if s = ''>h'' then Some (SignedFmt 2)
      else if s = ''>i'' then Some (SignedFmt 4)
      else if s = ''>q'' then Some (SignedFmt 8)
      else if s = ''>f'' then Some (FloatFmt 4)
      else if s = ''>d'' then Some (FloatFmt 8)
      else None)"

definition be_uint :: "byte list \<Rightarrow> int" where
  "be_uint data = foldl (\<lambda>acc b. acc * 256 + uint b) 0 data"

definition twos :: "nat \<Rightarrow> int \<Rightarrow> int" where
  "twos w v = (if 2 ^ (8 * w - 1) \<le> v then v - 2 ^ (8 * w) else v)"

definition struct_unpack :: "string \<Rightarrow> byte list \<Rightarrow> error + pyval" where
  "struct_unpack s data =
     (case struct_format s of
        None \<Rightarrow> Inl StructError
      | Some (UnsignedFmt w) \<Rightarrow>
          if length data \<noteq> w then Inl StructError else Inr (PInt (be_uint data))
      | Some (SignedFmt w) \<Rightarrow>
          if length data \<noteq> w then Inl StructError else Inr (PInt (twos w (be_uint data)))
      | Some (FloatFmt w) \<Rightarrow>
          if length data \<noteq> w then Inl StructError else Inr (PFloat data))"

definition re0 :: "string \<Rightarrow> source \<Rightarrow> nat \<Rightarrow> error + (pyval \<times> source)" where
  "re0 s fp n =
     bind_e (read_except fp n) (\<lambda>(data, fp).
     bind_e (struct_unpack s data) (\<lambda>v. Inr (v, fp)))"

text \<open>The integer inside a decoded \<open>int\<close>, where the module uses one as a length.\<close>

fun the_int :: "pyval \<Rightarrow> int" where
  "the_int (PInt i) = i"
| "the_int _ = 0"

subsection \<open>Python slicing, \<open>str.strip\<close>, tuple indexing, \<open>bytes.find\<close>\<close>

definition py_slice :: "'a list \<Rightarrow> int \<Rightarrow> int \<Rightarrow> 'a list" where
  "py_slice xs lo hi =
     (let n = int (length xs);
          l = (if lo < 0 then max (lo + n) 0 else min lo n);
          h = (if hi < 0 then max (hi + n) 0 else min hi n)
      in take (nat (h - l)) (drop (nat l) xs))"

definition is_space :: "char \<Rightarrow> bool" where
  "is_space c = (c \<in> {CHR '' '', CHR 0x09, CHR 0x0A, CHR 0x0B, CHR 0x0C, CHR 0x0D})"

definition strip :: "string \<Rightarrow> string" where
  "strip s = rev (dropWhile is_space (rev (dropWhile is_space s)))"

definition py_index :: "'a list \<Rightarrow> int \<Rightarrow> error + 'a" where
  "py_index xs i =
     (let n = int (length xs); j = (if i < 0 then i + n else i)
      in if 0 \<le> j \<and> j < n then Inr (xs ! nat j) else Inl IndexError)"

fun bytes_find :: "byte list \<Rightarrow> byte \<Rightarrow> int" where
  "bytes_find [] c = - 1"
| "bytes_find (x # xs) c =
     (if x = c then 0 else (let r = bytes_find xs c in if r < 0 then - 1 else r + 1))"

subsection \<open>Options and the runtime the module runs on\<close>

text \<open>
  The \<open>options\<close> dictionary, read with \<open>options.get\<close>: three flags taken by their
  truth value, and \<open>ext_handlers\<close>, a mapping from type identifier to callback (absent
  and empty are the same to the module).  A callback gets the \<open>Ext\<close> object (its type
  and data) and returns a value or raises.
\<close>

record options =
  allow_invalid_utf8 :: bool
  use_tuple :: bool
  use_ordered_dict :: bool
  ext_handlers :: "int \<rightharpoonup> (int \<Rightarrow> byte list \<Rightarrow> raised + pyval)"

text \<open>
  A class registered in \<open>ext_type_to_class\<close>: its \<open>unpackb\<close>, when it has one.
\<close>

datatype ext_class = ExtClass (unpackb: "(byte list \<Rightarrow> raised + pyval) option")

text \<open>
  What the module takes from outside itself and this model does not interpret:
  whether \<open>str(data, 'utf-8')\<close> accepts a payload; how the interpreter compares a float
  with a float and an integer with a float (floats are kept as their IEEE-754 field);
  and the process-wide registry \<open>ext_type_to_class\<close>, imported from the package.
\<close>

record runtime =
  utf8_ok :: "byte list \<Rightarrow> bool"
  float_eq :: "byte list \<Rightarrow> byte list \<Rightarrow> bool"
  int_float_eq :: "int \<Rightarrow> byte list \<Rightarrow> bool"
  ext_type_to_class :: "int \<rightharpoonup> ext_class"

subsection \<open>The scalar, string, binary and extension decoders\<close>

text \<open>
  In \<open>_unpack_integer\<close> the slice of the format string is inside a \<open>try\<close> that
  catches \<open>IndexError\<close>; a Python slice never raises it, so that handler has no branch.
\<close>

definition unpack_integer :: "byte \<Rightarrow> source \<Rightarrow> error + (pyval \<times> source)" where
  "unpack_integer code fp =
     (let ic = uint code in
      if ic AND 0xe0 = 0xe0 then bind_e (struct_unpack ''b'' [code]) (\<lambda>v. Inr (v, fp))
      else if ic AND 0x80 = 0x00 then bind_e (struct_unpack ''B'' [code]) (\<lambda>v. Inr (v, fp))
      else
        (let ic = ic - 0xcc;
             off = push_bit 1 ic;
             s = py_slice ''B >H>I>Qb >h>i>q'' off (off + 2)
         in re0 (strip s) fp (push_bit (nat (ic AND 3)) 1)))"

definition unpack_float :: "byte \<Rightarrow> source \<Rightarrow> error + (pyval \<times> source)" where
  "unpack_float code fp =
     (let ic = uint code in
      if ic = 0xca then re0 ''>f'' fp 4
      else if ic = 0xcb then re0 ''>d'' fp 8
      else Inl LogicError)"

definition unpack_string ::
  "runtime \<Rightarrow> byte \<Rightarrow> source \<Rightarrow> options \<Rightarrow> error + (pyval \<times> source)" where
  "unpack_string rt code fp options =
     (let ic = uint code in
      bind_e (if ic AND 0xe0 = 0xa0 then Inr (PInt (ic AND NOT 0xe0), fp)
              else if ic = 0xd9 then re0 ''B'' fp 1
              else if ic = 0xda then re0 ''>H'' fp 2
              else if ic = 0xdb then re0 ''>I'' fp 4
              else Inl LogicError) (\<lambda>(length, fp).
      bind_e (read_except fp (nat (the_int length))) (\<lambda>(data, fp).
        if utf8_ok rt data then Inr (PStr data, fp)
        else if allow_invalid_utf8 options then Inr (PBytes data, fp)
        else Inl InvalidStringException)))"

definition unpack_binary :: "byte \<Rightarrow> source \<Rightarrow> error + (pyval \<times> source)" where
  "unpack_binary code fp =
     (let ic = uint code in
      bind_e (if ic = 0xc4 then re0 ''B'' fp 1
              else if ic = 0xc5 then re0 ''>H'' fp 2
              else if ic = 0xc6 then re0 ''>I'' fp 4
              else Inl LogicError) (\<lambda>(length, fp).
      bind_e (read_except fp (nat (the_int length))) (\<lambda>(data, fp).
        Inr (PBytes data, fp))))"

definition unpack_ext ::
  "runtime \<Rightarrow> byte \<Rightarrow> source \<Rightarrow> options \<Rightarrow> error + (pyval \<times> source)" where
  "unpack_ext rt code fp options =
     (let ic = uint code;
          n = bytes_find [0xd4, 0xd5, 0xd6, 0xd7, 0xd8] code;
          length = (if n < 0 then 0 else push_bit (nat n) (1::int))
      in
      bind_e (if length = 0
              then (if ic = 0xc7 then re0 ''B'' fp 1
                    else if ic = 0xc8 then re0 ''>H'' fp 2
                    else if ic = 0xc9 then re0 ''>I'' fp 4
                    else Inl LogicError)
              else Inr (PInt length, fp)) (\<lambda>(length, fp).
      bind_e (re0 ''b'' fp 1) (\<lambda>(ext_type, fp).
      bind_e (read_except fp (nat (the_int length))) (\<lambda>(ext_data, fp).
        (case ext_handlers options (the_int ext_type) of
           Some handler \<Rightarrow>
             (case handler (the_int ext_type) ext_data of
                Inl r \<Rightarrow> Inl (CallbackRaised r)
              | Inr v \<Rightarrow> Inr (v, fp))
         | None \<Rightarrow>
             (case ext_type_to_class rt (the_int ext_type) of
                Some cls \<Rightarrow>
                  (case unpackb cls of
                     None \<Rightarrow> Inl NotImplementedError
                   | Some f \<Rightarrow>
                       (case f ext_data of
                          Inl AttributeError \<Rightarrow> Inl NotImplementedError
                        | Inl (OtherException x) \<Rightarrow> Inl (CallbackRaised (OtherException x))
                        | Inr v \<Rightarrow> Inr (v, fp)))
              | None \<Rightarrow> Inr (PExt (the_int ext_type) ext_data, fp)))))))"

subsection \<open>Map keys: \<open>_deep_list_to_tuple\<close>, \<open>hash\<close>, \<open>in\<close> and item assignment\<close>

fun deep_list_to_tuple :: "pyval \<Rightarrow> pyval" where
  "deep_list_to_tuple (PList obj) = PTuple (map deep_list_to_tuple obj)"
| "deep_list_to_tuple obj = obj"

fun isinstance_list :: "pyval \<Rightarrow> bool" where
  "isinstance_list (PList _) = True"
| "isinstance_list _ = False"

text \<open>
  Modelled from the spec: the class \<open>Ext\<close>, which the module takes from the package and
  which is not part of it.  The spec has an extension object pair a signed type identifier
  with a binary payload and nothing more, so an \<open>Ext\<close> is a value here: it has a hash,
  and two of them are the same key when both components are.

  \<open>hash(k)\<close> returns rather than raises: lists and dicts have no hash, a tuple has one
  when all its items have.
\<close>

fun hashable :: "pyval \<Rightarrow> bool" where
  "hashable (PList _) = False"
| "hashable (PDict _ _) = False"
| "hashable (PTuple xs) = list_all hashable xs"
| "hashable _ = True"

text \<open>
  Equality of a stored key and a looked-up key, as \<open>k in d\<close> sees it; it is only asked
  of keys that \<open>hash\<close> accepted.  \<open>bool\<close> and \<open>int\<close> compare by number
  (\<open>True == 1\<close>), floats as the runtime says, tuples item by item, extension objects
  by their two components.
\<close>

fun num_of :: "pyval \<Rightarrow> int option" where
  "num_of (PBool b) = Some (if b then 1 else 0)"
| "num_of (PInt i) = Some i"
| "num_of _ = None"

fun key_eq :: "runtime \<Rightarrow> pyval \<Rightarrow> pyval \<Rightarrow> bool" where
  "key_eq rt PNone b = (b = PNone)"
| "key_eq rt (PBool x) b =
     (case b of PFloat y \<Rightarrow> int_float_eq rt (if x then 1 else 0) y
      | _ \<Rightarrow> num_of b = Some (if x then 1 else 0))"
| "key_eq rt (PInt i) b =
     (case b of PFloat y \<Rightarrow> int_float_eq rt i y | _ \<Rightarrow> num_of b = Some i)"
| "key_eq rt (PFloat x) b =
     (case b of PFloat y \<Rightarrow> float_eq rt x y
      | _ \<Rightarrow> (case num_of b of Some j \<Rightarrow> int_float_eq rt j x | None \<Rightarrow> False))"
| "key_eq rt (PStr x) b = (b = PStr x)"
| "key_eq rt (PBytes x) b = (b = PBytes x)"
| "key_eq rt (PTuple xs) b =
     (case b of PTuple ys \<Rightarrow> list_all2 (key_eq rt) xs ys | _ \<Rightarrow> False)"
| "key_eq rt (PExt t x) b = (b = PExt t x)"
| "key_eq rt (PList xs) b = False"
| "key_eq rt (PDict ordered kvs) b = False"

definition key_in :: "runtime \<Rightarrow> pyval \<Rightarrow> (pyval \<times> pyval) list \<Rightarrow> bool" where
  "key_in rt k d = list_ex (\<lambda>(k', v). key_eq rt k' k) d"

definition dict_setitem ::
  "runtime \<Rightarrow> (pyval \<times> pyval) list \<Rightarrow> pyval \<Rightarrow> pyval \<Rightarrow> error + (pyval \<times> pyval) list" where
  "dict_setitem rt d k v =
     (if \<not> hashable k then Inl TypeError
      else if key_in rt k d
      then Inr (map (\<lambda>(k', v'). if key_eq rt k' k then (k', v) else (k', v')) d)
      else Inr (d @ [(k, v)]))"

subsection \<open>The composite decoders and \<open>load\<close>\<close>

text \<open>
  \<open>load\<close> calls itself for every element of an array and every key and value of a map.
  The model bounds the depth of these calls by a counter; \<open>None\<close> is the result of a
  run that would go deeper.  The composite decoders take the decoder of their elements
  (\<open>load\<close> one level down) as the argument \<open>ld\<close>.
\<close>

type_synonym 'a res = "(error + 'a) option"

definition bind_r :: "'a res \<Rightarrow> ('a \<Rightarrow> 'b res) \<Rightarrow> 'b res" where
  "bind_r m f = (case m of None \<Rightarrow> None | Some (Inl e) \<Rightarrow> Some (Inl e) | Some (Inr x) \<Rightarrow> f x)"

text \<open>The generator \<open>(load(fp, options) for i in range(length))\<close>, run to its end.\<close>

fun unpack_items ::
  "(source \<Rightarrow> (pyval \<times> source) res) \<Rightarrow> nat \<Rightarrow> source \<Rightarrow> (pyval list \<times> source) res" where
  "unpack_items ld 0 fp = Some (Inr ([], fp))"
| "unpack_items ld (Suc n) fp =
     bind_r (ld fp) (\<lambda>(v, fp).
     bind_r (unpack_items ld n fp) (\<lambda>(vs, fp). Some (Inr (v # vs, fp))))"

definition unpack_array ::
  "(source \<Rightarrow> (pyval \<times> source) res) \<Rightarrow> byte \<Rightarrow> source \<Rightarrow> options \<Rightarrow> (pyval \<times> source) res" where
  "unpack_array ld code fp options =
     (let ic = uint code in
      bind_r (Some (if ic AND 0xf0 = 0x90 then Inr (PInt (ic AND NOT 0xf0), fp)
                    else if ic = 0xdc then re0 ''>H'' fp 2
                    else if ic = 0xdd then re0 ''>I'' fp 4
                    else Inl LogicError)) (\<lambda>(length, fp).
      bind_r (unpack_items ld (nat (the_int length)) fp) (\<lambda>(g, fp).
        Some (Inr (if use_tuple options then PTuple g else PList g, fp)))))"

text \<open>The \<open>for\<close> loop of \<open>_unpack_map\<close>, with the dictionary built so far.\<close>

fun unpack_map_loop ::
  "runtime \<Rightarrow> (source \<Rightarrow> (pyval \<times> source) res) \<Rightarrow> nat \<Rightarrow> (pyval \<times> pyval) list \<Rightarrow> source
     \<Rightarrow> ((pyval \<times> pyval) list \<times> source) res" where
  "unpack_map_loop rt ld 0 d fp = Some (Inr (d, fp))"
| "unpack_map_loop rt ld (Suc n) d fp =
     bind_r (ld fp) (\<lambda>(k, fp).
       (let k = (if isinstance_list k then deep_list_to_tuple k else k) in
        if \<not> hashable k then Some (Inl UnhashableKeyException)
        else if key_in rt k d then Some (Inl DuplicateKeyException)
        else
          bind_r (ld fp) (\<lambda>(v, fp).
            (case dict_setitem rt d k v of
               Inl TypeError \<Rightarrow> Some (Inl UnhashableKeyException)
             | Inl e \<Rightarrow> Some (Inl e)
             | Inr d \<Rightarrow> unpack_map_loop rt ld n d fp))))"

definition unpack_map ::
  "runtime \<Rightarrow> (source \<Rightarrow> (pyval \<times> source) res) \<Rightarrow> byte \<Rightarrow> source \<Rightarrow> options
     \<Rightarrow> (pyval \<times> source) res" where
  "unpack_map rt ld code fp options =
     (let ic = uint code in
      bind_r (Some (if ic AND 0xf0 = 0x80 then Inr (PInt (ic AND NOT 0xf0), fp)
                    else if ic = 0xde then re0 ''>H'' fp 2
                    else if ic = 0xdf then re0 ''>I'' fp 4
                    else Inl LogicError)) (\<lambda>(length, fp).
      bind_r (unpack_map_loop rt ld (nat (the_int length)) [] fp) (\<lambda>(d, fp).
        Some (Inr (PDict (use_ordered_dict options) d, fp)))))"

text \<open>The body of \<open>load\<close> after the tag byte \<open>code\<close> has been read.\<close>

definition load_code ::
  "runtime \<Rightarrow> (source \<Rightarrow> (pyval \<times> source) res) \<Rightarrow> byte \<Rightarrow> source \<Rightarrow> options
     \<Rightarrow> (pyval \<times> source) res" where
  "load_code rt ld code fp options =
     (let ic = uint code in
      if ic \<le> 0x7f \<or> (0xcc \<le> ic \<and> ic \<le> 0xd3) \<or> (0xe0 \<le> ic \<and> ic \<le> 0xff)
      then Some (unpack_integer code fp)
      else if ic \<le> 0xc9 then
        (if ic \<le> 0xc3 then
           (if ic \<le> 0x8f then unpack_map rt ld code fp options
            else if ic \<le> 0x9f then unpack_array ld code fp options
            else if ic \<le> 0xbf then Some (unpack_string rt code fp options)
            else if ic = 0xc1 then Some (Inl ReservedCodeException)
            else Some (bind_e (py_index [PNone, PInt 0, PBool False, PBool True] (ic - 0xc0))
                         (\<lambda>v. Inr (v, fp))))
         else if ic \<le> 0xc6 then Some (unpack_binary code fp)
         else Some (unpack_ext rt code fp options))
      else if ic \<le> 0xcb then Some (unpack_float code fp)
      else if ic \<le> 0xd8 then Some (unpack_ext rt code fp options)
      else if ic \<le> 0xdb then Some (unpack_string rt code fp options)
      else if ic \<le> 0xdd then unpack_array ld code fp options
      else unpack_map rt ld code fp options)"

text \<open>\<open>ord(code)\<close> wants a single byte, which \<open>_read_except(fp, 1)\<close> delivers.\<close>

fun load :: "nat \<Rightarrow> runtime \<Rightarrow> source \<Rightarrow> options \<Rightarrow> (pyval \<times> source) res" where
  "load 0 rt fp options = None"
| "load (Suc depth) rt fp options =
     bind_r (Some (read_except fp 1)) (\<lambda>(code, fp).
       (case code of
          [c] \<Rightarrow> load_code rt (\<lambda>fp. load depth rt fp options) c fp options
        | _ \<Rightarrow> Some (Inl TypeError)))"

text \<open>
  \<open>loads\<close>: the argument is a byte string by its type, so the \<open>isinstance\<close> test
  passes.  Every level of nesting reads a tag byte of its own, so one level more than the
  buffer has bytes is all a run can use (\<open>load_enough_depth\<close> below).
\<close>

definition loads :: "runtime \<Rightarrow> byte list \<Rightarrow> options \<Rightarrow> (error + pyval) option" where
  "loads rt s options =
     bind_r (load (Suc (length s)) rt (BytesIO s) options) (\<lambda>(v, fp). Some (Inr v))"

section \<open>Notions used to state the properties\<close>

text \<open>What a source still holds, and what it delivers before its first empty read.\<close>

definition buf :: "source \<Rightarrow> byte list" where
  "buf fp = concat (pending fp)"

definition ready :: "source \<Rightarrow> byte list" where
  "ready fp = concat (takeWhile (\<lambda>c. c \<noteq> []) (pending fp))"

text \<open>
  The declared payload length of a string, as the wire format gives it: the low five bits
  of a tag \<open>0xa0\<close>-\<open>0xbf\<close>, or a big-endian length field of 1, 2 or 4 bytes after the tags
  \<open>0xd9\<close>, \<open>0xda\<close>, \<open>0xdb\<close>.  \<open>None\<close> for a tag that is no string tag.
\<close>

definition length_field :: "nat \<Rightarrow> source \<Rightarrow> error + (nat \<times> source)" where
  "length_field w fp = bind_e (read_except fp w) (\<lambda>(data, fp'). Inr (nat (be_uint data), fp'))"

definition str_length :: "byte \<Rightarrow> source \<Rightarrow> (error + (nat \<times> source)) option" where
  "str_length code fp =
     (let ic = uint code in
      if 0xa0 \<le> ic \<and> ic \<le> 0xbf then Some (Inr (nat (ic mod 32), fp))
      else if ic = 0xd9 then Some (length_field 1 fp)
      else if ic = 0xda then Some (length_field 2 fp)
      else if ic = 0xdb then Some (length_field 4 fp)
      else None)"

text \<open>
  The declared payload length of an extension: 1, 2, 4, 8 or 16 bytes for the five tags
  \<open>0xd4\<close>-\<open>0xd8\<close>, with no length field; a length field of 1, 2 or 4 bytes after the
  tags \<open>0xc7\<close>, \<open>0xc8\<close>, \<open>0xc9\<close>.
\<close>

definition ext_length :: "byte \<Rightarrow> source \<Rightarrow> (error + (nat \<times> source)) option" where
  "ext_length code fp =
     (let ic = uint code in
      if ic = 0xd4 then Some (Inr (1, fp))
      else if ic = 0xd5 then Some (Inr (2, fp))
      else if ic = 0xd6 then Some (Inr (4, fp))
      else if ic = 0xd7 then Some (Inr (8, fp))
      else if ic = 0xd8 then Some (Inr (16, fp))
      else if ic = 0xc7 then Some (length_field 1 fp)
      else if ic = 0xc8 then Some (length_field 2 fp)
      else if ic = 0xc9 then Some (length_field 4 fp)
      else None)"

text \<open>
  A runtime and options to run the decoder on: \<open>str\<close> accepts the 7-bit payloads, floats
  are the same key when their fields are, no integer is the same key as a float, nothing
  is registered; the options are the empty dictionary.
\<close>

definition plain_runtime :: runtime where
  "plain_runtime =
     \<lparr>utf8_ok = list_all (\<lambda>b. b < 0x80), float_eq = (=), int_float_eq = (\<lambda>i x. False),
      ext_type_to_class = Map.empty\<rparr>"

definition no_options :: options where
  "no_options =
     \<lparr>allow_invalid_utf8 = False, use_tuple = False, use_ordered_dict = False,
      ext_handlers = Map.empty\<rparr>"

text \<open>A source that is one buffer, as \<open>uio.BytesIO\<close> is: it delivers all it is asked
  for as long as it has it.\<close>

definition buffered :: "source \<Rightarrow> bool" where
  "buffered fp = (length (pending fp) \<le> 1)"

text \<open>
  The wire-format table: the decode routine of every tag byte, row by row, and the value
  of the three one-byte tags \<open>0xc0\<close>, \<open>0xc2\<close>, \<open>0xc3\<close>.
\<close>

datatype routine =
  RInteger | RFloat | RNilBool | RString | RBinary | RArray | RMap | RExt | RReserved

definition wire_table :: "int \<Rightarrow> routine" where
  "wire_table ic =
     (if 0x00 \<le> ic \<and> ic \<le> 0x7f then RInteger
      else if 0x80 \<le> ic \<and> ic \<le> 0x8f then RMap
      else if 0x90 \<le> ic \<and> ic \<le> 0x9f then RArray
      else if 0xa0 \<le> ic \<and> ic \<le> 0xbf then RString
      else if ic = 0xc0 then RNilBool
      else if ic = 0xc1 then RReserved
      else if ic = 0xc2 \<or> ic = 0xc3 then RNilBool
      else if ic = 0xc4 \<or> ic = 0xc5 \<or> ic = 0xc6 then RBinary
      else if ic = 0xc7 \<or> ic = 0xc8 \<or> ic = 0xc9 then RExt
      else if ic = 0xca \<or> ic = 0xcb then RFloat
      else if 0xcc \<le> ic \<and> ic \<le> 0xcf then RInteger
      else if 0xd0 \<le> ic \<and> ic \<le> 0xd3 then RInteger
      else if 0xd4 \<le> ic \<and> ic \<le> 0xd8 then RExt
      else if ic = 0xd9 \<or> ic = 0xda \<or> ic = 0xdb then RString
      else if ic = 0xdc \<or> ic = 0xdd then RArray
      else if ic = 0xde \<or> ic = 0xdf then RMap
      else RInteger)"

definition nil_bool :: "int \<Rightarrow> pyval" where
  "nil_bool ic = (if ic = 0xc0 then PNone else if ic = 0xc2 then PBool False else PBool True)"

text \<open>
  The errors that are outcomes of the data or of the caller's callbacks, as against the
  signs of a defect of the decoder itself: the \<open>Exception('Logic error')\<close> of \<open>_fail\<close>
  and the errors of \<open>struct.unpack\<close>, of indexing, of \<open>ord\<close> and of item assignment.
\<close>

fun data_error :: "error \<Rightarrow> bool" where
  "data_error LogicError = False"
| "data_error StructError = False"
| "data_error IndexError = False"
| "data_error TypeError = False"
| "data_error _ = True"

text \<open>
  Two runs of the decoder, the second over a buffer that continues the first's by \<open>t\<close>:
  \<open>longer\<close> relates the sources, \<open>agree_e\<close> and \<open>agree_r\<close> the results.  The runs agree
  when the second returns what the first returns, with \<open>t\<close> more left to read, unless the
  first ran out of data.
\<close>

definition longer :: "byte list \<Rightarrow> source \<Rightarrow> source \<Rightarrow> bool" where
  "longer t fp1 fp2 = (buffered fp1 \<and> buffered fp2 \<and> buf fp2 = buf fp1 @ t)"

definition agree_e :: "byte list \<Rightarrow> error + ('a \<times> source) \<Rightarrow> error + ('a \<times> source) \<Rightarrow> bool" where
  "agree_e t r1 r2 =
     (case r1 of
        Inl e \<Rightarrow> e = InsufficientDataException \<or> r2 = Inl e
      | Inr (v, fp1) \<Rightarrow> (\<exists>fp2. r2 = Inr (v, fp2) \<and> longer t fp1 fp2))"

definition agree_r :: "byte list \<Rightarrow> ('a \<times> source) res \<Rightarrow> ('a \<times> source) res \<Rightarrow> bool" where
  "agree_r t r1 r2 =
     (case r1 of
        None \<Rightarrow> r2 = None
      | Some x \<Rightarrow> x = Inl InsufficientDataException \<or> (\<exists>y. r2 = Some y \<and> agree_e t x y))"

text \<open>
  A byte string is a complete encoding of a value when decoding it returns the value and
  leaves nothing unread.
\<close>

definition encoded_value :: "runtime \<Rightarrow> options \<Rightarrow> byte list \<Rightarrow> pyval \<Rightarrow> bool" where
  "encoded_value rt options s v =
     (case load (Suc (length s)) rt (BytesIO s) options of
        Some (Inr (v', fp')) \<Rightarrow> v' = v \<and> buf fp' = []
      | _ \<Rightarrow> False)"

text \<open>
  The tuple form of a decoded key: a list becomes the tuple of the tuple forms of its
  items, at every depth of lists in lists, and anything that is not a list stays as it is.
  \<open>tuple_form k k'\<close> says that \<open>k'\<close> is the tuple form of \<open>k\<close>.
\<close>

fun tuple_form :: "pyval \<Rightarrow> pyval \<Rightarrow> bool" where
  "tuple_form (PList xs) b = (case b of PTuple ys \<Rightarrow> list_all2 tuple_form xs ys | _ \<Rightarrow> False)"
| "tuple_form a b = (b = a)"

section \<open>Properties\<close>

subsection \<open>The exact reader\<close>

lemma fp_read_length: "fp_read fp n = (chunk, fp') \<Longrightarrow> length chunk \<le> n"
  by (auto simp: fp_read_def split: list.splits if_splits)

lemma read_loop_spec:
  "length data \<le> n \<Longrightarrow>
   (n - length data \<le> length (ready fp) \<longrightarrow>
      (\<exists>fp'. read_loop fp n data = Inr (data @ take (n - length data) (ready fp), fp')
         \<and> buf fp' = drop (n - length data) (buf fp)
         \<and> length (pending fp') \<le> length (pending fp))) \<and>
   (length (ready fp) < n - length data \<longrightarrow>
      read_loop fp n data = Inl InsufficientDataException)"
proof (induction fp n data rule: read_loop.induct)
  case (1 fp n data)
  show ?case
  proof (cases "length data < n")
    case False
    with "1.prems" show ?thesis by simp
  next
    case more: True
    let ?m = "n - length data"
    have m: "0 < ?m" using more by simp
    show ?thesis
    proof (cases "pending fp")
      case Nil
      then show ?thesis using more
        by (simp add: fp_read_def ready_def)
    next
      case (Cons c cs)
      show ?thesis
      proof (cases "c = []")
        case True
        then show ?thesis using more Cons
          by (simp add: fp_read_def ready_def)
      next
        case nonempty: False
        show ?thesis
        proof (cases "?m < length c")
          case True
          let ?fp' = "fp\<lparr>pending := drop ?m c # cs, reads := Suc (reads fp)\<rparr>"
          have rd: "fp_read fp ?m = (take ?m c, ?fp')"
            using Cons True by (simp add: fp_read_def)
          have "read_loop fp n data = read_loop ?fp' n (data @ take ?m c)"
            using more rd m True nonempty by (subst read_loop.simps) simp
          also have "\<dots> = Inr (data @ take ?m c, ?fp')"
            using more True by (subst read_loop.simps) simp
          finally show ?thesis
            using Cons True nonempty by (simp add: ready_def buf_def)
        next
          case False
          let ?fp' = "fp\<lparr>pending := cs, reads := Suc (reads fp)\<rparr>"
          have rd: "fp_read fp ?m = (c, ?fp')"
            using Cons False by (simp add: fp_read_def)
          have step: "read_loop fp n data = read_loop ?fp' n (data @ c)"
            using more rd nonempty by (subst read_loop.simps) simp
          have len: "length (data @ c) \<le> n" using False more by simp
          have rdy: "ready fp = c @ ready ?fp'" "buf fp = c @ buf ?fp'"
            using Cons nonempty by (simp_all add: ready_def buf_def)
          have IH: "(n - length (data @ c) \<le> length (ready ?fp') \<longrightarrow>
                (\<exists>fp'. read_loop ?fp' n (data @ c)
                     = Inr ((data @ c) @ take (n - length (data @ c)) (ready ?fp'), fp')
                   \<and> buf fp' = drop (n - length (data @ c)) (buf ?fp')
                   \<and> length (pending fp') \<le> length (pending ?fp'))) \<and>
               (length (ready ?fp') < n - length (data @ c) \<longrightarrow>
                  read_loop ?fp' n (data @ c) = Inl InsufficientDataException)"
            using "1.IH"[OF more rd[symmetric] _ len] nonempty by simp
          show ?thesis
            using IH False more Cons unfolding step rdy
            by (auto simp: )
        qed
      qed
    qed
  qed
qed


lemma read_except_spec:
  "(n \<le> length (ready fp) \<longrightarrow>
      (\<exists>fp'. read_except fp n = Inr (take n (ready fp), fp')
         \<and> buf fp' = drop n (buf fp)
         \<and> length (pending fp') \<le> length (pending fp))) \<and>
   (length (ready fp) < n \<longrightarrow> read_except fp n = Inl InsufficientDataException)"
proof (cases "n = 0")
  case True
  then show ?thesis by (simp add: read_except_def)
next
  case False
  have "read_except fp n = read_loop fp n []"
    using False by (subst read_loop.simps) (simp add: read_except_def split: prod.splits)
  then show ?thesis
    using read_loop_spec[of "[]" n fp] by simp
qed

lemma read_except_Inl: "read_except fp n = Inl e \<Longrightarrow> e = InsufficientDataException"
  using read_except_spec[of n fp] by (cases "n \<le> length (ready fp)") auto

lemma read_except_Inr:
  assumes "read_except fp n = Inr (data, fp')"
  shows "length data = n" and "data = take n (ready fp)" and "buf fp' = drop n (buf fp)"
    and "length (pending fp') \<le> length (pending fp)"
  using read_except_spec[of n fp] assms by (cases "n \<le> length (ready fp)"; auto)+

text \<open>
  C8.  \<open>_read_except(fp, 0)\<close> returns the empty byte string and leaves the source as it
  was, no \<open>read\<close> made.  For \<open>n > 0\<close>, over a source that delivers its data in chunks
  of any size, it returns exactly the first \<open>n\<close> bytes, gathered over as many reads as it
  takes, when the source delivers that many before an empty read; it fails with
  \<open>InsufficientDataException\<close> otherwise: when the first read is empty, and when an
  empty read follows reads that gathered fewer than \<open>n\<close> bytes.
\<close>

theorem read_except_exact:
  "read_except fp 0 = Inr ([], fp) \<and>
   (0 < n \<and> n \<le> length (ready fp) \<longrightarrow>
      (\<exists>fp'. read_except fp n = Inr (take n (ready fp), fp')
         \<and> length (take n (ready fp)) = n
         \<and> buf fp' = drop n (buf fp))) \<and>
   (length (ready fp) < n \<longrightarrow> read_except fp n = Inl InsufficientDataException)"
  using read_except_spec[of n fp] by (auto simp: read_except_def)

theorem read_except_exact_witness:
  "(0::nat) < 3 \<and> 3 \<le> length (ready \<lparr>pending = [[1], [2, 3], [], [4]], reads = 0\<rparr>)
   \<and> (\<exists>fp'. read_except \<lparr>pending = [[1], [2, 3], [], [4]], reads = 0\<rparr> 3 = Inr ([1, 2, 3], fp')
          \<and> buf fp' = [4])
   \<and> length (ready \<lparr>pending = [[1], [2, 3], [], [4]], reads = 0\<rparr>) < 4
   \<and> read_except \<lparr>pending = [[1], [2, 3], [], [4]], reads = 0\<rparr> 4 = Inl InsufficientDataException
   \<and> length (ready \<lparr>pending = [[], [4]], reads = 0\<rparr>) < 1
   \<and> read_except \<lparr>pending = [[], [4]], reads = 0\<rparr> 1 = Inl InsufficientDataException"
  using read_except_exact[of "\<lparr>pending = [[1], [2, 3], [], [4]], reads = 0\<rparr>" 3]
        read_except_exact[of "\<lparr>pending = [[1], [2, 3], [], [4]], reads = 0\<rparr>" 4]
        read_except_exact[of "\<lparr>pending = [[], [4]], reads = 0\<rparr>" 1]
  by (simp add: ready_def buf_def)


subsection \<open>Tag bytes and the integer decoder\<close>

lemma tag_masks_upto:
  "list_all (\<lambda>n. let ic = int n in
      ((ic AND 0xe0 = 0xe0) = (0xe0 \<le> ic)) \<and>
      ((ic AND 0x80 = 0x00) = (ic \<le> 0x7f)) \<and>
      ((ic AND 0xe0 = 0xa0) = (0xa0 \<le> ic \<and> ic \<le> 0xbf)) \<and>
      ((ic AND 0xf0 = 0x90) = (0x90 \<le> ic \<and> ic \<le> 0x9f)) \<and>
      ((ic AND 0xf0 = 0x80) = (0x80 \<le> ic \<and> ic \<le> 0x8f)) \<and>
      ic AND NOT 0xe0 = ic mod 32 \<and>
      ic AND NOT 0xf0 = ic mod 16 \<and>
      ic AND 0x1f = ic mod 32) [0..<256]"
  by code_simp

lemma tag_masks:
  fixes code :: byte
  defines "ic \<equiv> uint code"
  shows "(ic AND 0xe0 = 0xe0) = (0xe0 \<le> ic)"
    and "(ic AND 0x80 = 0x00) = (ic \<le> 0x7f)"
    and "(ic AND 0xe0 = 0xa0) = (0xa0 \<le> ic \<and> ic \<le> 0xbf)"
    and "(ic AND 0xf0 = 0x90) = (0x90 \<le> ic \<and> ic \<le> 0x9f)"
    and "(ic AND 0xf0 = 0x80) = (0x80 \<le> ic \<and> ic \<le> 0x8f)"
    and "ic AND NOT 0xe0 = ic mod 32"
    and "ic AND NOT 0xf0 = ic mod 16"
    and "ic AND 0x1f = ic mod 32"
proof -
  have "0 \<le> ic" "ic < 256"
    using uint_lt2p[of code] by (simp_all add: ic_def)
  then have "nat ic \<in> set [0..<256]" "int (nat ic) = ic" by auto
  note tag_masks_upto[unfolded list_all_iff, rule_format, OF this(1), unfolded this(2) Let_def]
  then show "(ic AND 0xe0 = 0xe0) = (0xe0 \<le> ic)"
    and "(ic AND 0x80 = 0x00) = (ic \<le> 0x7f)"
    and "(ic AND 0xe0 = 0xa0) = (0xa0 \<le> ic \<and> ic \<le> 0xbf)"
    and "(ic AND 0xf0 = 0x90) = (0x90 \<le> ic \<and> ic \<le> 0x9f)"
    and "(ic AND 0xf0 = 0x80) = (0x80 \<le> ic \<and> ic \<le> 0x8f)"
    and "ic AND NOT 0xe0 = ic mod 32"
    and "ic AND NOT 0xf0 = ic mod 16"
    and "ic AND 0x1f = ic mod 32"
    by simp_all
qed

lemma integer_formats:
  "map (\<lambda>ic. (strip (py_slice ''B >H>I>Qb >h>i>q'' (push_bit 1 (ic - 0xcc)) (push_bit 1 (ic - 0xcc) + 2)),
              (push_bit (nat ((ic - 0xcc) AND 3)) 1 :: nat)))
     [0xcc, 0xcd, 0xce, 0xcf, 0xd0, 0xd1, 0xd2, 0xd3]
   = [(''B'', 1), (''>H'', 2), (''>I'', 4), (''>Q'', 8), (''b'', 1), (''>h'', 2), (''>i'', 4), (''>q'', 8)]"
  by code_simp


lemma uint_byte_range: "0 \<le> uint (code :: byte) \<and> uint code < 256"
  using uint_lt2p[of code] by simp

lemma re0_read:
  "re0 s fp n = bind_e (read_except fp n) (\<lambda>(data, fp'). bind_e (struct_unpack s data) (\<lambda>v. Inr (v, fp')))"
  by (simp add: re0_def)

lemma integer_format_cases:
  "strip (py_slice ''B >H>I>Qb >h>i>q'' 0 2) = ''B''"
  "strip (py_slice ''B >H>I>Qb >h>i>q'' 2 4) = ''>H''"
  "strip (py_slice ''B >H>I>Qb >h>i>q'' 4 6) = ''>I''"
  "strip (py_slice ''B >H>I>Qb >h>i>q'' 6 8) = ''>Q''"
  "strip (py_slice ''B >H>I>Qb >h>i>q'' 8 10) = ''b''"
  "strip (py_slice ''B >H>I>Qb >h>i>q'' 10 12) = ''>h''"
  "strip (py_slice ''B >H>I>Qb >h>i>q'' 12 14) = ''>i''"
  "strip (py_slice ''B >H>I>Qb >h>i>q'' 14 16) = ''>q''"
  by code_simp+

lemma re0_unsigned:
  assumes "struct_format s = Some (UnsignedFmt n)"
  shows "re0 s fp n = bind_e (read_except fp n) (\<lambda>(data, fp'). Inr (PInt (be_uint data), fp'))"
proof (cases "read_except fp n")
  case (Inl e)
  then show ?thesis by (simp add: re0_def bind_e_def)
next
  case (Inr r)
  obtain data fp' where r: "r = (data, fp')" by (cases r)
  have "length data = n" using read_except_Inr(1)[of fp n data fp'] Inr r by simp
  then show ?thesis using Inr r assms by (simp add: re0_def bind_e_def struct_unpack_def)
qed

lemma re0_signed:
  assumes "struct_format s = Some (SignedFmt n)"
  shows "re0 s fp n = bind_e (read_except fp n) (\<lambda>(data, fp'). Inr (PInt (twos n (be_uint data)), fp'))"
proof (cases "read_except fp n")
  case (Inl e)
  then show ?thesis by (simp add: re0_def bind_e_def)
next
  case (Inr r)
  obtain data fp' where r: "r = (data, fp')" by (cases r)
  have "length data = n" using read_except_Inr(1)[of fp n data fp'] Inr r by simp
  then show ?thesis using Inr r assms by (simp add: re0_def bind_e_def struct_unpack_def)
qed

lemma re0_float:
  assumes "struct_format s = Some (FloatFmt n)"
  shows "re0 s fp n = bind_e (read_except fp n) (\<lambda>(data, fp'). Inr (PFloat data, fp'))"
proof (cases "read_except fp n")
  case (Inl e)
  then show ?thesis by (simp add: re0_def bind_e_def)
next
  case (Inr r)
  obtain data fp' where r: "r = (data, fp')" by (cases r)
  have "length data = n" using read_except_Inr(1)[of fp n data fp'] Inr r by simp
  then show ?thesis using Inr r assms by (simp add: re0_def bind_e_def struct_unpack_def)
qed

lemma struct_formats:
  "struct_format ''B'' = Some (UnsignedFmt 1)"
  "struct_format ''>H'' = Some (UnsignedFmt 2)"
  "struct_format ''>I'' = Some (UnsignedFmt 4)"
  "struct_format ''>Q'' = Some (UnsignedFmt 8)"
  "struct_format ''b'' = Some (SignedFmt 1)"
  "struct_format ''>h'' = Some (SignedFmt 2)"
  "struct_format ''>i'' = Some (SignedFmt 4)"
  "struct_format ''>q'' = Some (SignedFmt 8)"
  "struct_format ''>f'' = Some (FloatFmt 4)"
  "struct_format ''>d'' = Some (FloatFmt 8)"
  by (simp_all add: struct_format_def)

lemma unpack_integer_wide:
  assumes "0xcc \<le> uint code" and "uint code \<le> 0xd3"
  shows "unpack_integer code fp =
     (if uint code \<le> 0xcf
      then bind_e (read_except fp (2 ^ nat (uint code - 0xcc)))
             (\<lambda>(data, fp'). Inr (PInt (be_uint data), fp'))
      else bind_e (read_except fp (2 ^ nat (uint code - 0xd0)))
             (\<lambda>(data, fp'). Inr (PInt (twos (2 ^ nat (uint code - 0xd0)) (be_uint data)), fp')))"
proof -
  from assms consider "uint code = 0xcc" | "uint code = 0xcd" | "uint code = 0xce" | "uint code = 0xcf"
    | "uint code = 0xd0" | "uint code = 0xd1" | "uint code = 0xd2" | "uint code = 0xd3"
    by arith
  then show ?thesis
  proof cases
    case 1
    then show ?thesis
      using re0_unsigned[OF struct_formats(1), of fp]
      by (simp add: unpack_integer_def integer_format_cases)
  next
    case 2
    then show ?thesis
      using re0_unsigned[OF struct_formats(2), of fp]
      by (simp add: unpack_integer_def integer_format_cases)
  next
    case 3
    then show ?thesis
      using re0_unsigned[OF struct_formats(3), of fp]
      by (simp add: unpack_integer_def integer_format_cases)
  next
    case 4
    then show ?thesis
      using re0_unsigned[OF struct_formats(4), of fp]
      by (simp add: unpack_integer_def integer_format_cases)
  next
    case 5
    then show ?thesis
      using re0_signed[OF struct_formats(5), of fp]
      by (simp add: unpack_integer_def integer_format_cases)
  next
    case 6
    then show ?thesis
      using re0_signed[OF struct_formats(6), of fp]
      by (simp add: unpack_integer_def integer_format_cases)
  next
    case 7
    then show ?thesis
      using re0_signed[OF struct_formats(7), of fp]
      by (simp add: unpack_integer_def integer_format_cases)
  next
    case 8
    then show ?thesis
      using re0_signed[OF struct_formats(8), of fp]
      by (simp add: unpack_integer_def integer_format_cases)
  qed
qed

lemma unpack_integer_fixint:
  "uint code \<le> 0x7f \<Longrightarrow> unpack_integer code fp = Inr (PInt (uint code), fp)"
  "0xe0 \<le> uint code \<Longrightarrow> unpack_integer code fp = Inr (PInt ((uint code AND 0x1f) - 32), fp)"
proof -
  assume "uint code \<le> 0x7f"
  then show "unpack_integer code fp = Inr (PInt (uint code), fp)"
    using tag_masks(1,2)[of code]
    by (simp add: unpack_integer_def struct_unpack_def struct_formats bind_e_def be_uint_def)
next
  assume a: "0xe0 \<le> uint code"
  have "uint code mod 32 = uint code - 224"
    using a uint_byte_range[of code] by presburger
  then show "unpack_integer code fp = Inr (PInt ((uint code AND 0x1f) - 32), fp)"
    using tag_masks(1,8)[of code] a
    by (simp add: unpack_integer_def struct_unpack_def struct_formats bind_e_def be_uint_def twos_def)
qed


text \<open>
  C3.  The integer decoder returns the encoded integer.  A tag \<open>0x00\<close>-\<open>0x7f\<close> is its own
  value; a tag \<open>0xe0\<close>-\<open>0xff\<close> is its low five bits sign-extended, \<open>-32\<close> to \<open>-1\<close>;
  the tags \<open>0xcc\<close>-\<open>0xcf\<close> read a field of 1, 2, 4 or 8 bytes as a big-endian
  unsigned number and the tags \<open>0xd0\<close>-\<open>0xd3\<close> read one as a big-endian two's
  complement number; the tag alone fixes width and sign, and nothing but the field is
  read.
\<close>

theorem unpack_integer_exact:
  "(uint code \<le> 0x7f \<longrightarrow> unpack_integer code fp = Inr (PInt (uint code), fp)) \<and>
   (0xe0 \<le> uint code \<longrightarrow>
      unpack_integer code fp = Inr (PInt ((uint code AND 0x1f) - 32), fp)) \<and>
   (0xcc \<le> uint code \<and> uint code \<le> 0xcf \<longrightarrow>
      unpack_integer code fp =
        bind_e (read_except fp (2 ^ nat (uint code - 0xcc)))
          (\<lambda>(data, fp'). Inr (PInt (be_uint data), fp'))) \<and>
   (0xd0 \<le> uint code \<and> uint code \<le> 0xd3 \<longrightarrow>
      unpack_integer code fp =
        bind_e (read_except fp (2 ^ nat (uint code - 0xd0)))
          (\<lambda>(data, fp'). Inr (PInt (twos (2 ^ nat (uint code - 0xd0)) (be_uint data)), fp')))"
  using unpack_integer_fixint[of code fp] unpack_integer_wide[of code fp] by simp

lemma read_except_BytesIO:
  "n \<le> length s \<Longrightarrow> \<exists>fp'. read_except (BytesIO s) n = Inr (take n s, fp') \<and> buf fp' = drop n s"
  using read_except_spec[of n "BytesIO s"]
  by (cases "s = []") (auto simp: ready_def buf_def BytesIO_def)

theorem unpack_integer_exact_witness:
  "uint (0x7f :: byte) \<le> 0x7f \<and> unpack_integer 0x7f (BytesIO []) = Inr (PInt 127, BytesIO []) \<and>
   0xe0 \<le> uint (0xe0 :: byte) \<and> unpack_integer 0xe0 (BytesIO []) = Inr (PInt (- 32), BytesIO []) \<and>
   0xcc \<le> uint (0xcd :: byte) \<and> uint (0xcd :: byte) \<le> 0xcf \<and>
   map_sum id fst (unpack_integer 0xcd (BytesIO [0x01, 0x02])) = Inr (PInt 258) \<and>
   0xd0 \<le> uint (0xd1 :: byte) \<and> uint (0xd1 :: byte) \<le> 0xd3 \<and>
   map_sum id fst (unpack_integer 0xd1 (BytesIO [0xff, 0xfe])) = Inr (PInt (- 2))"
proof -
  obtain fp1 where r1: "read_except (BytesIO [0x01, 0x02]) 2 = Inr ([0x01, 0x02], fp1)"
    using read_except_BytesIO[of 2 "[0x01, 0x02]"] by auto
  obtain fp2 where r2: "read_except (BytesIO [0xff, 0xfe]) 2 = Inr ([0xff, 0xfe], fp2)"
    using read_except_BytesIO[of 2 "[0xff, 0xfe]"] by auto
  have a: "unpack_integer 0x7f (BytesIO []) = Inr (PInt 127, BytesIO [])"
    using unpack_integer_exact[of "0x7f" "BytesIO []"] by simp
  have b: "unpack_integer 0xe0 (BytesIO []) = Inr (PInt (- 32), BytesIO [])"
    using unpack_integer_exact[of "0xe0" "BytesIO []"] by simp
  have "unpack_integer 0xcd (BytesIO [0x01, 0x02]) =
        bind_e (read_except (BytesIO [0x01, 0x02]) 2) (\<lambda>(data, fp'). Inr (PInt (be_uint data), fp'))"
    using unpack_integer_exact[of "0xcd" "BytesIO [0x01, 0x02]"] by simp
  then have c: "map_sum id fst (unpack_integer 0xcd (BytesIO [0x01, 0x02])) = Inr (PInt 258)"
    by (simp add: r1 bind_e_def be_uint_def)
  have "unpack_integer 0xd1 (BytesIO [0xff, 0xfe]) =
        bind_e (read_except (BytesIO [0xff, 0xfe]) 2)
          (\<lambda>(data, fp'). Inr (PInt (twos 2 (be_uint data)), fp'))"
    using unpack_integer_exact[of "0xd1" "BytesIO [0xff, 0xfe]"] by simp
  then have d: "map_sum id fst (unpack_integer 0xd1 (BytesIO [0xff, 0xfe])) = Inr (PInt (- 2))"
    by (simp add: r2 bind_e_def be_uint_def twos_def)
  show ?thesis
    using a b c d by simp
qed

subsection \<open>The string decoder\<close>


lemma be_uint_nonneg: "0 \<le> be_uint data"
proof -
  have "0 \<le> acc \<Longrightarrow> 0 \<le> foldl (\<lambda>acc b. acc * 256 + uint b) acc data" for acc
    by (induction data arbitrary: acc) auto
  then show ?thesis by (simp add: be_uint_def)
qed

lemma re0_length_field:
  assumes "struct_format s = Some (UnsignedFmt w)"
  shows "bind_e (re0 s fp w) (\<lambda>(l, fp'). f (nat (the_int l)) fp')
       = bind_e (length_field w fp) (\<lambda>(n, fp'). f n fp')"
  by (cases "read_except fp w")
     (auto simp: re0_unsigned[OF assms] length_field_def bind_e_def)

lemma str_header:
  assumes "str_length code fp = Some r"
  shows "(let ic = uint code in
            if ic AND 0xe0 = 0xa0 then Inr (PInt (ic AND NOT 0xe0), fp)
            else if ic = 0xd9 then re0 ''B'' fp 1
            else if ic = 0xda then re0 ''>H'' fp 2
            else if ic = 0xdb then re0 ''>I'' fp 4
            else Inl LogicError)
         = bind_e r (\<lambda>(n, fp'). Inr (PInt (int n), fp'))"
proof -
  have nn: "0 \<le> uint code mod 32" by simp
  have f: "re0 s fp w = bind_e (length_field w fp) (\<lambda>(n, fp'). Inr (PInt (int n), fp'))"
    if "struct_format s = Some (UnsignedFmt w)" for s w
    by (cases "read_except fp w")
       (auto simp: re0_unsigned[OF that] length_field_def bind_e_def be_uint_nonneg)
  show ?thesis
    using assms tag_masks(3,6)[of code] f[OF struct_formats(1)] f[OF struct_formats(2)]
      f[OF struct_formats(3)]
    by (auto simp: str_length_def Let_def bind_e_def split: if_splits)
qed

text \<open>
  C6.  Once the string decoder has read the declared number of payload bytes, and exactly
  that many, it returns the text whose UTF-8 form the payload is; when the payload is
  not valid UTF-8 it returns the payload as raw bytes if \<open>allow_invalid_utf8\<close> is set and
  fails with \<open>InvalidStringException\<close> if it is not.
\<close>

theorem unpack_string_policy:
  assumes "str_length code fp = Some (Inr (n, fp1))"
    and "read_except fp1 n = Inr (data, fp2)"
  shows "length data = n \<and>
         unpack_string rt code fp options =
           (if utf8_ok rt data then Inr (PStr data, fp2)
            else if allow_invalid_utf8 options then Inr (PBytes data, fp2)
            else Inl InvalidStringException)"
proof -
  have "length data = n" using read_except_Inr(1)[OF assms(2)] .
  moreover have "unpack_string rt code fp options =
           (if utf8_ok rt data then Inr (PStr data, fp2)
            else if allow_invalid_utf8 options then Inr (PBytes data, fp2)
            else Inl InvalidStringException)"
    using str_header[OF assms(1)] assms(2)
    by (simp add: unpack_string_def Let_def bind_e_def)
  ultimately show ?thesis by simp
qed


theorem unpack_string_policy_witness:
  "\<exists>fp2 fp3.
     str_length 0xa1 (BytesIO [0x61]) = Some (Inr (1, BytesIO [0x61])) \<and>
     read_except (BytesIO [0x61]) 1 = Inr ([0x61], fp2) \<and>
     unpack_string plain_runtime 0xa1 (BytesIO [0x61]) no_options = Inr (PStr [0x61], fp2) \<and>
     str_length 0xa1 (BytesIO [0xff]) = Some (Inr (1, BytesIO [0xff])) \<and>
     read_except (BytesIO [0xff]) 1 = Inr ([0xff], fp3) \<and>
     unpack_string plain_runtime 0xa1 (BytesIO [0xff]) no_options = Inl InvalidStringException \<and>
     unpack_string plain_runtime 0xa1 (BytesIO [0xff]) (no_options\<lparr>allow_invalid_utf8 := True\<rparr>)
       = Inr (PBytes [0xff], fp3)"
proof -
  obtain fp2 where r2: "read_except (BytesIO [0x61]) 1 = Inr ([0x61], fp2)"
    using read_except_BytesIO[of 1 "[0x61]"] by auto
  obtain fp3 where r3: "read_except (BytesIO [0xff]) 1 = Inr ([0xff], fp3)"
    using read_except_BytesIO[of 1 "[0xff]"] by auto
  have l2: "str_length 0xa1 (BytesIO [0x61]) = Some (Inr (1, BytesIO [0x61]))"
    and l3: "str_length 0xa1 (BytesIO [0xff]) = Some (Inr (1, BytesIO [0xff]))"
    by (simp_all add: str_length_def)
  have a: "unpack_string plain_runtime 0xa1 (BytesIO [0x61]) no_options = Inr (PStr [0x61], fp2)"
    using unpack_string_policy[OF l2 r2, of plain_runtime no_options]
    by (simp add: plain_runtime_def)
  have b: "unpack_string plain_runtime 0xa1 (BytesIO [0xff]) no_options = Inl InvalidStringException"
    using unpack_string_policy[OF l3 r3, of plain_runtime no_options]
    by (simp add: plain_runtime_def no_options_def)
  have c: "unpack_string plain_runtime 0xa1 (BytesIO [0xff]) (no_options\<lparr>allow_invalid_utf8 := True\<rparr>)
       = Inr (PBytes [0xff], fp3)"
    using unpack_string_policy[OF l3 r3, of plain_runtime "no_options\<lparr>allow_invalid_utf8 := True\<rparr>"]
    by (simp add: plain_runtime_def no_options_def)
  show ?thesis using r2 r3 l2 l3 a b c by blast
qed

subsection \<open>The extension decoder\<close>


lemma sint_byte: "sint (b :: byte) = twos 1 (be_uint [b])"
proof -
  have r: "0 \<le> uint b" "uint b < 256" using uint_byte_range[of b] by auto
  have "sint b = signed_take_bit 7 (uint b)"
    by (simp add: sint_uint)
  also have "\<dots> = (uint b + 128) mod 256 - 128"
    by (simp add: signed_take_bit_eq_take_bit_shift take_bit_eq_mod)
  also have "\<dots> = (if 128 \<le> uint b then uint b - 256 else uint b)"
  proof (cases "128 \<le> uint b")
    case True
    have "uint b + 128 = uint b - 128 + 256" by simp
    then have "(uint b + 128) mod 256 = (uint b - 128 + 256) mod 256" by (rule arg_cong)
    also have "\<dots> = (uint b - 128) mod 256" by (simp only: mod_add_self2)
    also have "\<dots> = uint b - 128" using True r by (simp add: mod_pos_pos_trivial)
    finally show ?thesis using True by simp
  next
    case False
    then have "(uint b + 128) mod 256 = uint b + 128" using r by (simp add: mod_pos_pos_trivial)
    then show ?thesis using False by simp
  qed
  finally show ?thesis by (simp add: twos_def be_uint_def)
qed


lemma byte_of_uint: "uint (code :: byte) = k \<Longrightarrow> code = word_of_int k"
  by auto

lemma length_field_re0:
  assumes "struct_format s = Some (UnsignedFmt w)" and "length_field w fp = Inr (n, fp1)"
  shows "re0 s fp w = Inr (PInt (int n), fp1)"
  using assms(2)
  by (cases "read_except fp w")
     (auto simp: re0_unsigned[OF assms(1)] length_field_def bind_e_def be_uint_nonneg)

lemma unpack_ext_resolved:
  assumes len: "ext_length code fp = Some (Inr (n, fp1))"
    and "read_except fp1 1 = Inr ([b], fp2)"
    and rd: "read_except fp2 n = Inr (data, fp3)"
  shows "unpack_ext rt code fp options =
     (case ext_handlers options (sint b) of
        Some handler \<Rightarrow>
          (case handler (sint b) data of
             Inl r \<Rightarrow> Inl (CallbackRaised r)
           | Inr v \<Rightarrow> Inr (v, fp3))
      | None \<Rightarrow>
          (case ext_type_to_class rt (sint b) of
             Some cls \<Rightarrow>
               (case unpackb cls of
                  None \<Rightarrow> Inl NotImplementedError
                | Some f \<Rightarrow>
                    (case f data of
                       Inl AttributeError \<Rightarrow> Inl NotImplementedError
                     | Inl (OtherException x) \<Rightarrow> Inl (CallbackRaised (OtherException x))
                     | Inr v \<Rightarrow> Inr (v, fp3)))
           | None \<Rightarrow> Inr (PExt (sint b) data, fp3)))"
proof -
  have t: "re0 ''b'' fp1 (Suc 0) = Inr (PInt (sint b), fp2)"
    using re0_signed[OF struct_formats(5), of fp1] assms(2) by (simp add: bind_e_def sint_byte)
  from len consider
      "code = 0xd4" "n = 1" "fp1 = fp" | "code = 0xd5" "n = 2" "fp1 = fp"
    | "code = 0xd6" "n = 4" "fp1 = fp" | "code = 0xd7" "n = 8" "fp1 = fp"
    | "code = 0xd8" "n = 16" "fp1 = fp"
    | "code = 0xc7" "length_field 1 fp = Inr (n, fp1)"
    | "code = 0xc8" "length_field 2 fp = Inr (n, fp1)"
    | "code = 0xc9" "length_field 4 fp = Inr (n, fp1)"
    by (auto simp: ext_length_def Let_def split: if_splits dest!: byte_of_uint)
  then show ?thesis
  proof cases
    case 1
    then show ?thesis using t rd by (simp add: unpack_ext_def bind_e_def cong: option.case_cong sum.case_cong)
  next
    case 2
    then show ?thesis using t rd by (simp add: unpack_ext_def bind_e_def cong: option.case_cong sum.case_cong)
  next
    case 3
    then show ?thesis using t rd by (simp add: unpack_ext_def bind_e_def cong: option.case_cong sum.case_cong)
  next
    case 4
    then show ?thesis using t rd by (simp add: unpack_ext_def bind_e_def cong: option.case_cong sum.case_cong)
  next
    case 5
    then show ?thesis using t rd by (simp add: unpack_ext_def bind_e_def cong: option.case_cong sum.case_cong)
  next
    case 6
    then show ?thesis
      using t rd length_field_re0[OF struct_formats(1) 6(2)]
      by (simp add: unpack_ext_def bind_e_def cong: option.case_cong sum.case_cong)
  next
    case 7
    then show ?thesis
      using t rd length_field_re0[OF struct_formats(2) 7(2)]
      by (simp add: unpack_ext_def bind_e_def cong: option.case_cong sum.case_cong)
  next
    case 8
    then show ?thesis
      using t rd length_field_re0[OF struct_formats(3) 8(2)]
      by (simp add: unpack_ext_def bind_e_def cong: option.case_cong sum.case_cong)
  qed
qed


lemma buffered_ready: "buffered fp \<Longrightarrow> ready fp = buf fp"
  by (cases "pending fp"; cases "tl (pending fp)"; cases "hd (pending fp) = []")
     (auto simp: buffered_def ready_def buf_def)

lemma buffered_BytesIO: "buffered (BytesIO s)" "buf (BytesIO s) = s"
  by (simp_all add: buffered_def buf_def BytesIO_def)

lemma read_except_buffered:
  assumes "buffered fp"
  shows "n \<le> length (buf fp) \<Longrightarrow>
           \<exists>fp'. read_except fp n = Inr (take n (buf fp), fp') \<and> buf fp' = drop n (buf fp)
             \<and> buffered fp'"
    and "length (buf fp) < n \<Longrightarrow> read_except fp n = Inl InsufficientDataException"
  using read_except_spec[of n fp] assms buffered_ready[OF assms]
  by (auto simp: buffered_def)

text \<open>
  C7.  The extension decoder, having read the type identifier and the payload, resolves
  in three tiers.  A handler that the options give for this type identifier is called
  with the extension object and its result returned.  Otherwise a class that the
  registry has for the identifier has its \<open>unpackb\<close> called and the result returned, and
  the decoder fails with \<open>NotImplementedError\<close> when the class has no \<open>unpackb\<close>.
  Otherwise the extension object itself is returned.
\<close>

theorem unpack_ext_three_tiers:
  assumes "ext_length code fp = Some (Inr (n, fp1))"
    and "read_except fp1 1 = Inr ([b], fp2)"
    and "read_except fp2 n = Inr (data, fp3)"
  shows "(\<forall>handler. ext_handlers options (sint b) = Some handler \<longrightarrow>
            unpack_ext rt code fp options =
              (case handler (sint b) data of
                 Inl r \<Rightarrow> Inl (CallbackRaised r)
               | Inr v \<Rightarrow> Inr (v, fp3))) \<and>
         (\<forall>cls. ext_handlers options (sint b) = None \<and> ext_type_to_class rt (sint b) = Some cls \<longrightarrow>
            (unpackb cls = None \<longrightarrow> unpack_ext rt code fp options = Inl NotImplementedError) \<and>
            (\<forall>f v. unpackb cls = Some f \<and> f data = Inr v \<longrightarrow>
               unpack_ext rt code fp options = Inr (v, fp3))) \<and>
         (ext_handlers options (sint b) = None \<and> ext_type_to_class rt (sint b) = None \<longrightarrow>
            unpack_ext rt code fp options = Inr (PExt (sint b) data, fp3))"
  unfolding unpack_ext_resolved[OF assms] by simp

theorem unpack_ext_three_tiers_witness:
  "\<exists>fp2 fp3.
     ext_length 0xd4 (BytesIO [0x05, 0xaa]) = Some (Inr (1, BytesIO [0x05, 0xaa])) \<and>
     read_except (BytesIO [0x05, 0xaa]) 1 = Inr ([0x05], fp2) \<and>
     read_except fp2 1 = Inr ([0xaa], fp3) \<and>
     unpack_ext plain_runtime 0xd4 (BytesIO [0x05, 0xaa])
        (no_options\<lparr>ext_handlers := [5 \<mapsto> (\<lambda>t d. Inr (PInt (int (length d))))]\<rparr>)
       = Inr (PInt 1, fp3) \<and>
     unpack_ext (plain_runtime\<lparr>ext_type_to_class := [5 \<mapsto> ExtClass None]\<rparr>) 0xd4
        (BytesIO [0x05, 0xaa]) no_options
       = Inl NotImplementedError \<and>
     unpack_ext (plain_runtime\<lparr>ext_type_to_class := [5 \<mapsto> ExtClass (Some (\<lambda>d. Inr (PBytes d)))]\<rparr>)
        0xd4 (BytesIO [0x05, 0xaa]) no_options
       = Inr (PBytes [0xaa], fp3) \<and>
     unpack_ext plain_runtime 0xd4 (BytesIO [0x05, 0xaa]) no_options = Inr (PExt 5 [0xaa], fp3)"
proof -
  obtain fp2 where r2: "read_except (BytesIO [0x05, 0xaa]) 1 = Inr ([0x05], fp2)"
    and b2: "buf fp2 = [0xaa]" "buffered fp2"
    using read_except_buffered(1)[OF buffered_BytesIO(1), of 1 "[0x05, 0xaa]"]
    by (auto simp: buffered_BytesIO)
  obtain fp3 where r3: "read_except fp2 1 = Inr ([0xaa], fp3)"
    using read_except_buffered(1)[OF b2(2), of 1] b2(1) by auto
  have l: "ext_length 0xd4 (BytesIO [0x05, 0xaa]) = Some (Inr (1, BytesIO [0x05, 0xaa]))"
    by (simp add: ext_length_def)
  have s: "sint (0x05 :: byte) = 5" by simp
  have a: "unpack_ext plain_runtime 0xd4 (BytesIO [0x05, 0xaa])
        (no_options\<lparr>ext_handlers := [5 \<mapsto> (\<lambda>t d. Inr (PInt (int (length d))))]\<rparr>)
       = Inr (PInt 1, fp3)"
    using unpack_ext_three_tiers[OF l r2 r3, of
        "no_options\<lparr>ext_handlers := [5 \<mapsto> (\<lambda>t d. Inr (PInt (int (length d))))]\<rparr>" plain_runtime]
    by (simp add: s)
  have b: "unpack_ext (plain_runtime\<lparr>ext_type_to_class := [5 \<mapsto> ExtClass None]\<rparr>) 0xd4
        (BytesIO [0x05, 0xaa]) no_options = Inl NotImplementedError"
    using unpack_ext_three_tiers[OF l r2 r3, of no_options
        "plain_runtime\<lparr>ext_type_to_class := [5 \<mapsto> ExtClass None]\<rparr>"]
    by (simp add: s no_options_def)
  have c: "unpack_ext (plain_runtime\<lparr>ext_type_to_class := [5 \<mapsto> ExtClass (Some (\<lambda>d. Inr (PBytes d)))]\<rparr>)
        0xd4 (BytesIO [0x05, 0xaa]) no_options = Inr (PBytes [0xaa], fp3)"
    using unpack_ext_three_tiers[OF l r2 r3, of no_options
        "plain_runtime\<lparr>ext_type_to_class := [5 \<mapsto> ExtClass (Some (\<lambda>d. Inr (PBytes d)))]\<rparr>"]
    by (simp add: s no_options_def)
  have d: "unpack_ext plain_runtime 0xd4 (BytesIO [0x05, 0xaa]) no_options = Inr (PExt 5 [0xaa], fp3)"
    using unpack_ext_three_tiers[OF l r2 r3, of no_options plain_runtime]
    by (simp add: s no_options_def plain_runtime_def)
  show ?thesis using l r2 r3 a b c d by blast
qed

subsection \<open>Map keys\<close>


lemma bind_r_simps:
  "bind_r None f = None"
  "bind_r (Some (Inl e)) f = Some (Inl e)"
  "bind_r (Some (Inr x)) f = f x"
  by (simp_all add: bind_r_def)

lemma key_eq_hashable: "key_eq rt a b \<Longrightarrow> hashable a \<Longrightarrow> hashable b"
proof (induction rt a b rule: key_eq.induct)
  case (7 rt xs b)
  then obtain ys where b: "b = PTuple ys" and l: "list_all2 (key_eq rt) xs ys"
    by (cases b) auto
  have "hashable y" if "y \<in> set ys" for y
  proof -
    from that obtain i where i: "i < length ys" "y = ys ! i"
      by (auto simp: in_set_conv_nth)
    with l have "xs ! i \<in> set xs" "key_eq rt (xs ! i) y"
      by (auto simp: list_all2_conv_all_nth)
    then obtain x where "x \<in> set xs" "key_eq rt x y" by blast
    with "7.IH"[OF b] "7.prems"(2) that show ?thesis by (auto simp: list_all_iff)
  qed
  then show ?case by (simp add: b list_all_iff)
qed (auto split: pyval.splits)

lemma key_in_hashable:
  "key_in rt k d \<Longrightarrow> list_all (\<lambda>(k0, v0). hashable k0) d \<Longrightarrow> hashable k"
  by (auto simp: key_in_def list_ex_iff list_all_iff dest: key_eq_hashable)

lemma unpack_map_loop_step:
  assumes "ld fp = Some (Inr (k, fp1))"
  shows "unpack_map_loop rt ld (Suc n) d fp =
     (let k' = (if isinstance_list k then deep_list_to_tuple k else k) in
      if \<not> hashable k' then Some (Inl UnhashableKeyException)
      else if key_in rt k' d then Some (Inl DuplicateKeyException)
      else bind_r (ld fp1) (\<lambda>(v, fp2). unpack_map_loop rt ld n (d @ [(k', v)]) fp2))"
proof -
  have "(case dict_setitem rt d k' v of
           Inl TypeError \<Rightarrow> Some (Inl UnhashableKeyException)
         | Inl e \<Rightarrow> Some (Inl e)
         | Inr d \<Rightarrow> unpack_map_loop rt ld n d fp2)
        = unpack_map_loop rt ld n (d @ [(k', v)]) fp2"
    if "hashable k'" "\<not> key_in rt k' d" for k' v fp2
    using that by (simp add: dict_setitem_def)
  then show ?thesis
    using assms
    by (auto simp: bind_r_simps Let_def bind_r_def split: option.splits sum.splits)
qed

lemma unpack_map_loop_appends:
  "unpack_map_loop rt ld n d fp = Some (Inr (d', fp')) \<Longrightarrow>
   length d' = length d + n \<and> take (length d) d' = d"
proof (induction n arbitrary: d fp)
  case 0
  then show ?case by simp
next
  case (Suc n)
  from Suc.prems obtain k fp1 where k: "ld fp = Some (Inr (k, fp1))"
    by (cases "ld fp" rule: option.exhaust; cases "the (ld fp)")
       (auto simp: bind_r_simps)
  define k' where "k' = (if isinstance_list k then deep_list_to_tuple k else k)"
  from Suc.prems have ok: "hashable k'" "\<not> key_in rt k' d"
    and rest: "bind_r (ld fp1) (\<lambda>(v, fp2). unpack_map_loop rt ld n (d @ [(k', v)]) fp2)
                 = Some (Inr (d', fp'))"
    unfolding unpack_map_loop_step[of ld fp k fp1, OF k] Let_def k'_def[symmetric]
    by (auto split: if_splits)
  from rest obtain v fp2 where v: "ld fp1 = Some (Inr (v, fp2))"
    and r: "unpack_map_loop rt ld n (d @ [(k', v)]) fp2 = Some (Inr (d', fp'))"
    by (cases "ld fp1" rule: option.exhaust; cases "the (ld fp1)")
       (auto simp: bind_r_simps)
  from Suc.IH[OF r] have "length d' = length d + Suc n" "take (Suc (length d)) d' = d @ [(k', v)]"
    by simp_all
  moreover from this(2) have "take (length d) (take (Suc (length d)) d') = take (length d) (d @ [(k', v)])"
    by simp
  then have "take (length d) d' = d" by simp
  ultimately show ?case by simp
qed

text \<open>
  C4.  In the loop of \<open>_unpack_map\<close>, over a dictionary whose keys \<open>hash\<close> accepted (as
  all the keys the loop stores are), a decoded key that is equal to a key already stored,
  after a list key has been turned into a tuple, ends the decoding with
  \<open>DuplicateKeyException\<close>: two empty arrays are such keys.  A dictionary the loop
  returns has every earlier item unchanged and one new item for each pair it was to read:
  a repeated key is never resolved in favour of either value.
\<close>

theorem duplicate_key_rejected:
  "(list_all (\<lambda>(k0, v0). hashable k0) d \<and> ld fp = Some (Inr (k, fp1)) \<and>
    key_in rt (if isinstance_list k then deep_list_to_tuple k else k) d \<longrightarrow>
      unpack_map_loop rt ld (Suc n) d fp = Some (Inl DuplicateKeyException)) \<and>
   (\<forall>d' fp'. unpack_map_loop rt ld n d fp = Some (Inr (d', fp')) \<longrightarrow>
      length d' = length d + n \<and> take (length d) d' = d)"
proof (intro conjI impI allI)
  assume a: "list_all (\<lambda>(k0, v0). hashable k0) d \<and> ld fp = Some (Inr (k, fp1)) \<and>
    key_in rt (if isinstance_list k then deep_list_to_tuple k else k) d"
  then have "hashable (if isinstance_list k then deep_list_to_tuple k else k)"
    using key_in_hashable by blast
  with a show "unpack_map_loop rt ld (Suc n) d fp = Some (Inl DuplicateKeyException)"
    by (simp add: unpack_map_loop_step[of ld fp k fp1] Let_def del: unpack_map_loop.simps)
next
  fix d' fp'
  assume "unpack_map_loop rt ld n d fp = Some (Inr (d', fp'))"
  from unpack_map_loop_appends[OF this]
  show "length d' = length d + n" and "take (length d) d' = d" by simp_all
qed

lemma tuple_form_deep: "tuple_form k (deep_list_to_tuple k)"
proof (induction k rule: deep_list_to_tuple.induct)
  case (1 obj)
  then show ?case by (simp add: list_all2_conv_all_nth)
qed simp_all

lemma tuple_form_unique: "tuple_form k a \<Longrightarrow> tuple_form k b \<Longrightarrow> a = b"
proof (induction k a arbitrary: b rule: tuple_form.induct)
  case (1 xs a)
  from "1.prems"(1) obtain ys where a: "a = PTuple ys" and ya: "list_all2 tuple_form xs ys"
    by (cases a) auto
  from "1.prems"(2) obtain zs where b: "b = PTuple zs" and zb: "list_all2 tuple_form xs zs"
    by (cases b) auto
  have "ys = zs"
  proof (rule nth_equalityI)
    show "length ys = length zs" using ya zb by (simp add: list_all2_conv_all_nth)
  next
    fix i assume i: "i < length ys"
    then have "xs ! i \<in> set xs" "ys ! i \<in> set ys" "tuple_form (xs ! i) (ys ! i)"
      "tuple_form (xs ! i) (zs ! i)"
      using ya zb by (auto simp: list_all2_conv_all_nth)
    with "1.IH"[OF a] show "ys ! i = zs ! i" by blast
  qed
  then show ?case by (simp add: a b)
qed simp_all

lemma tuple_form_key:
  "tuple_form k (if isinstance_list k then deep_list_to_tuple k else k)"
  by (cases k) (simp_all add: tuple_form_deep del: deep_list_to_tuple.simps)

text \<open>
  C5.  In the loop of \<open>_unpack_map\<close> a decoded key that is a list is turned into its
  tuple form before any check: the list and every list in it, at any depth, becomes a
  tuple, and a key that is no list is left as it is; the key the loop goes on with is the
  one and only tuple form of the decoded key.  A key that \<open>hash\<close> then refuses, such as
  a dictionary or a tuple holding one, ends the decoding with \<open>UnhashableKeyException\<close>;
  a key that passes and is new is stored as converted, and the assignment cannot fail for
  it.
\<close>

theorem unhashable_key_rejected:
  assumes "ld fp = Some (Inr (k, fp1))"
    and "k' = (if isinstance_list k then deep_list_to_tuple k else k)"
  shows "tuple_form k k' \<and>
         (\<forall>k''. tuple_form k k'' \<longrightarrow> k'' = k') \<and>
         (\<not> hashable k' \<longrightarrow>
            unpack_map_loop rt ld (Suc n) d fp = Some (Inl UnhashableKeyException)) \<and>
         (hashable k' \<and> \<not> key_in rt k' d \<longrightarrow>
            unpack_map_loop rt ld (Suc n) d fp =
              bind_r (ld fp1) (\<lambda>(v, fp2). unpack_map_loop rt ld n (d @ [(k', v)]) fp2))"
proof -
  have t: "tuple_form k k'" unfolding assms(2) by (rule tuple_form_key)
  moreover have "\<forall>k''. tuple_form k k'' \<longrightarrow> k'' = k'"
    using tuple_form_unique[OF _ t] by blast
  moreover have "(\<not> hashable k' \<longrightarrow>
            unpack_map_loop rt ld (Suc n) d fp = Some (Inl UnhashableKeyException)) \<and>
         (hashable k' \<and> \<not> key_in rt k' d \<longrightarrow>
            unpack_map_loop rt ld (Suc n) d fp =
              bind_r (ld fp1) (\<lambda>(v, fp2). unpack_map_loop rt ld n (d @ [(k', v)]) fp2))"
    by (simp add: unpack_map_loop_step[of ld fp k fp1, OF assms(1)] Let_def assms(2)
          del: unpack_map_loop.simps)
  ultimately show ?thesis by blast
qed


text \<open>
  C10.  The checks of a key come before the decoding of its value.  When the key is
  refused by \<open>hash\<close> or is already in the dictionary, the loop fails with
  \<open>UnhashableKeyException\<close> or \<open>DuplicateKeyException\<close> whatever the element decoder
  would do on the bytes after the key: any decoder that reads the same key gives the same
  failure, also with the value truncated or malformed.
\<close>

theorem key_checks_before_value:
  assumes "ld fp = Some (Inr (k, fp1))" and "ld' fp = ld fp"
    and "k' = (if isinstance_list k then deep_list_to_tuple k else k)"
    and "\<not> hashable k' \<or> key_in rt k' d"
  shows "unpack_map_loop rt ld' (Suc n) d fp = unpack_map_loop rt ld (Suc n) d fp \<and>
         unpack_map_loop rt ld (Suc n) d fp =
           Some (Inl (if \<not> hashable k' then UnhashableKeyException else DuplicateKeyException))"
proof -
  have "ld' fp = Some (Inr (k, fp1))" using assms(1,2) by simp
  then show ?thesis
    using assms(3,4)
    by (auto simp: unpack_map_loop_step[of ld fp k fp1, OF assms(1)]
          unpack_map_loop_step[of ld' fp k fp1] Let_def simp del: unpack_map_loop.simps)
qed


theorem duplicate_key_rejected_witness:
  "list_all (\<lambda>(k0, v0). hashable k0) [(PTuple [], PInt 1)] \<and>
   load 2 plain_runtime \<lparr>pending = [[0x90, 0x02]], reads = 3\<rparr> no_options
     = Some (Inr (PList [], \<lparr>pending = [[0x02]], reads = 4\<rparr>)) \<and>
   key_in plain_runtime (if isinstance_list (PList []) then deep_list_to_tuple (PList []) else PList [])
     [(PTuple [], PInt 1)] \<and>
   unpack_map_loop plain_runtime (\<lambda>fp. load 2 plain_runtime fp no_options) (Suc 0)
     [(PTuple [], PInt 1)] \<lparr>pending = [[0x90, 0x02]], reads = 3\<rparr>
     = Some (Inl DuplicateKeyException) \<and>
   loads plain_runtime [0x82, 0x90, 0x01, 0x90, 0x02] no_options = Some (Inl DuplicateKeyException)"
proof -
  have a: "list_all (\<lambda>(k0, v0). hashable k0) [(PTuple [], PInt 1)]" by simp
  have b: "load 2 plain_runtime \<lparr>pending = [[0x90, 0x02]], reads = 3\<rparr> no_options
     = Some (Inr (PList [], \<lparr>pending = [[0x02]], reads = 4\<rparr>))"
    by code_simp
  have c: "key_in plain_runtime
     (if isinstance_list (PList []) then deep_list_to_tuple (PList []) else PList [])
     [(PTuple [], PInt 1)]"
    by (simp add: key_in_def)
  have d: "loads plain_runtime [0x82, 0x90, 0x01, 0x90, 0x02] no_options
     = Some (Inl DuplicateKeyException)"
    by code_simp
  from duplicate_key_rejected[of "[(PTuple [], PInt 1)]" "\<lambda>fp. load 2 plain_runtime fp no_options"
      "\<lparr>pending = [[0x90, 0x02]], reads = 3\<rparr>" "PList []" "\<lparr>pending = [[0x02]], reads = 4\<rparr>"
      plain_runtime 0] a b c
  have "unpack_map_loop plain_runtime (\<lambda>fp. load 2 plain_runtime fp no_options) (Suc 0)
     [(PTuple [], PInt 1)] \<lparr>pending = [[0x90, 0x02]], reads = 3\<rparr>
     = Some (Inl DuplicateKeyException)"
    by blast
  with a b c d show ?thesis by blast
qed

theorem unhashable_key_rejected_witness:
  "load 3 plain_runtime (BytesIO [0x91, 0x80]) no_options
     = Some (Inr (PList [PDict False []], \<lparr>pending = [], reads = 2\<rparr>)) \<and>
   PTuple [PDict False []] = (if isinstance_list (PList [PDict False []])
      then deep_list_to_tuple (PList [PDict False []]) else PList [PDict False []]) \<and>
   tuple_form (PList [PDict False []]) (PTuple [PDict False []]) \<and>
   \<not> hashable (PTuple [PDict False []]) \<and>
   unpack_map_loop plain_runtime (\<lambda>fp. load 3 plain_runtime fp no_options) (Suc 0) []
     (BytesIO [0x91, 0x80]) = Some (Inl UnhashableKeyException) \<and>
   load 4 plain_runtime (BytesIO [0x91, 0x91, 0x91, 0x01, 0x05]) no_options
     = Some (Inr (PList [PList [PList [PInt 1]]], \<lparr>pending = [[0x05]], reads = 4\<rparr>)) \<and>
   PTuple [PTuple [PTuple [PInt 1]]] = (if isinstance_list (PList [PList [PList [PInt 1]]])
      then deep_list_to_tuple (PList [PList [PList [PInt 1]]]) else PList [PList [PList [PInt 1]]]) \<and>
   tuple_form (PList [PList [PList [PInt 1]]]) (PTuple [PTuple [PTuple [PInt 1]]]) \<and>
   hashable (PTuple [PTuple [PTuple [PInt 1]]]) \<and>
   \<not> key_in plain_runtime (PTuple [PTuple [PTuple [PInt 1]]]) [] \<and>
   unpack_map_loop plain_runtime (\<lambda>fp. load 4 plain_runtime fp no_options) (Suc 0) []
     (BytesIO [0x91, 0x91, 0x91, 0x01, 0x05])
     = Some (Inr ([(PTuple [PTuple [PTuple [PInt 1]]], PInt 5)], \<lparr>pending = [], reads = 5\<rparr>)) \<and>
   loads plain_runtime [0x81, 0x91, 0x91, 0x91, 0x01, 0x05] no_options
     = Some (Inr (PDict False [(PTuple [PTuple [PTuple [PInt 1]]], PInt 5)])) \<and>
   loads plain_runtime [0x81, 0x91, 0x80, 0x05] no_options = Some (Inl UnhashableKeyException)"
proof -
  have a: "load 3 plain_runtime (BytesIO [0x91, 0x80]) no_options
     = Some (Inr (PList [PDict False []], \<lparr>pending = [], reads = 2\<rparr>))"
    by code_simp
  have b: "PTuple [PDict False []] = (if isinstance_list (PList [PDict False []])
      then deep_list_to_tuple (PList [PDict False []]) else PList [PDict False []])"
    by simp
  have c: "\<not> hashable (PTuple [PDict False []])" by simp
  note A = unhashable_key_rejected[of "\<lambda>fp. load 3 plain_runtime fp no_options"
        "BytesIO [0x91, 0x80]" "PList [PDict False []]" "\<lparr>pending = [], reads = 2\<rparr>"
        "PTuple [PDict False []]" plain_runtime 0 "[]", OF a b]
  have t1: "tuple_form (PList [PDict False []]) (PTuple [PDict False []])"
    using A by blast
  have d: "unpack_map_loop plain_runtime (\<lambda>fp. load 3 plain_runtime fp no_options) (Suc 0) []
     (BytesIO [0x91, 0x80]) = Some (Inl UnhashableKeyException)"
    using A c by blast
  have e: "load 4 plain_runtime (BytesIO [0x91, 0x91, 0x91, 0x01, 0x05]) no_options
     = Some (Inr (PList [PList [PList [PInt 1]]], \<lparr>pending = [[0x05]], reads = 4\<rparr>))"
    by code_simp
  have f: "PTuple [PTuple [PTuple [PInt 1]]] = (if isinstance_list (PList [PList [PList [PInt 1]]])
      then deep_list_to_tuple (PList [PList [PList [PInt 1]]]) else PList [PList [PList [PInt 1]]])"
    by simp
  have g: "hashable (PTuple [PTuple [PTuple [PInt 1]]])"
    "\<not> key_in plain_runtime (PTuple [PTuple [PTuple [PInt 1]]]) []"
    by (simp_all add: key_in_def)
  have v: "load 4 plain_runtime \<lparr>pending = [[0x05]], reads = 4\<rparr> no_options
     = Some (Inr (PInt 5, \<lparr>pending = [], reads = 5\<rparr>))"
    by code_simp
  note B = unhashable_key_rejected[of "\<lambda>fp. load 4 plain_runtime fp no_options"
        "BytesIO [0x91, 0x91, 0x91, 0x01, 0x05]" "PList [PList [PList [PInt 1]]]"
        "\<lparr>pending = [[0x05]], reads = 4\<rparr>"
        "PTuple [PTuple [PTuple [PInt 1]]]" plain_runtime 0 "[]", OF e f]
  have t2: "tuple_form (PList [PList [PList [PInt 1]]]) (PTuple [PTuple [PTuple [PInt 1]]])"
    using B by blast
  have "unpack_map_loop plain_runtime (\<lambda>fp. load 4 plain_runtime fp no_options) (Suc 0) []
     (BytesIO [0x91, 0x91, 0x91, 0x01, 0x05])
     = bind_r (load 4 plain_runtime \<lparr>pending = [[0x05]], reads = 4\<rparr> no_options)
         (\<lambda>(v, fp2). unpack_map_loop plain_runtime (\<lambda>fp. load 4 plain_runtime fp no_options) 0
            ([] @ [(PTuple [PTuple [PTuple [PInt 1]]], v)]) fp2)"
    using B g by blast
  then have h: "unpack_map_loop plain_runtime (\<lambda>fp. load 4 plain_runtime fp no_options) (Suc 0) []
     (BytesIO [0x91, 0x91, 0x91, 0x01, 0x05])
     = Some (Inr ([(PTuple [PTuple [PTuple [PInt 1]]], PInt 5)], \<lparr>pending = [], reads = 5\<rparr>))"
    by (simp only: v bind_r_simps prod.case unpack_map_loop.simps append_Nil)
  have i: "loads plain_runtime [0x81, 0x91, 0x91, 0x91, 0x01, 0x05] no_options
     = Some (Inr (PDict False [(PTuple [PTuple [PTuple [PInt 1]]], PInt 5)]))"
    "loads plain_runtime [0x81, 0x91, 0x80, 0x05] no_options = Some (Inl UnhashableKeyException)"
    by code_simp+
  from a b t1 c d e f t2 g h i show ?thesis by blast
qed

theorem key_checks_before_value_witness:
  "load 2 plain_runtime (BytesIO [0x80]) no_options
     = Some (Inr (PDict False [], \<lparr>pending = [], reads = 1\<rparr>)) \<and>
   \<not> hashable (PDict False []) \<and>
   load 2 plain_runtime \<lparr>pending = [], reads = 1\<rparr> no_options
     = Some (Inl InsufficientDataException) \<and>
   unpack_map_loop plain_runtime (\<lambda>fp. load 2 plain_runtime fp no_options) (Suc 0) []
     (BytesIO [0x80]) = Some (Inl UnhashableKeyException) \<and>
   load 2 plain_runtime \<lparr>pending = [[0x01, 0xc1]], reads = 3\<rparr> no_options
     = Some (Inr (PInt 1, \<lparr>pending = [[0xc1]], reads = 4\<rparr>)) \<and>
   key_in plain_runtime (PInt 1) [(PInt 1, PInt 1)] \<and>
   load 2 plain_runtime \<lparr>pending = [[0xc1]], reads = 4\<rparr> no_options
     = Some (Inl ReservedCodeException) \<and>
   unpack_map_loop plain_runtime (\<lambda>fp. load 2 plain_runtime fp no_options) (Suc 0)
     [(PInt 1, PInt 1)] \<lparr>pending = [[0x01, 0xc1]], reads = 3\<rparr>
     = Some (Inl DuplicateKeyException) \<and>
   loads plain_runtime [0x81, 0x80] no_options = Some (Inl UnhashableKeyException) \<and>
   loads plain_runtime [0x82, 0x01, 0x01, 0x01, 0xc1] no_options = Some (Inl DuplicateKeyException)"
proof -
  have a: "load 2 plain_runtime (BytesIO [0x80]) no_options
     = Some (Inr (PDict False [], \<lparr>pending = [], reads = 1\<rparr>))"
    by code_simp
  have b: "\<not> hashable (PDict False [])" by simp
  have c: "load 2 plain_runtime \<lparr>pending = [], reads = 1\<rparr> no_options
     = Some (Inl InsufficientDataException)"
    by code_simp
  have d: "unpack_map_loop plain_runtime (\<lambda>fp. load 2 plain_runtime fp no_options) (Suc 0) []
     (BytesIO [0x80]) = Some (Inl UnhashableKeyException)"
    using key_checks_before_value[of "\<lambda>fp. load 2 plain_runtime fp no_options" "BytesIO [0x80]"
        "PDict False []" "\<lparr>pending = [], reads = 1\<rparr>" "\<lambda>fp. load 2 plain_runtime fp no_options"
        "PDict False []" plain_runtime "[]" 0, OF a refl] b
    by simp
  have e: "load 2 plain_runtime \<lparr>pending = [[0x01, 0xc1]], reads = 3\<rparr> no_options
     = Some (Inr (PInt 1, \<lparr>pending = [[0xc1]], reads = 4\<rparr>))"
    by code_simp
  have f: "key_in plain_runtime (PInt 1) [(PInt 1, PInt 1)]"
    by (simp add: key_in_def)
  have g: "load 2 plain_runtime \<lparr>pending = [[0xc1]], reads = 4\<rparr> no_options
     = Some (Inl ReservedCodeException)"
    by code_simp
  have h: "unpack_map_loop plain_runtime (\<lambda>fp. load 2 plain_runtime fp no_options) (Suc 0)
     [(PInt 1, PInt 1)] \<lparr>pending = [[0x01, 0xc1]], reads = 3\<rparr>
     = Some (Inl DuplicateKeyException)"
    using key_checks_before_value[of "\<lambda>fp. load 2 plain_runtime fp no_options"
        "\<lparr>pending = [[0x01, 0xc1]], reads = 3\<rparr>"
        "PInt 1" "\<lparr>pending = [[0xc1]], reads = 4\<rparr>" "\<lambda>fp. load 2 plain_runtime fp no_options"
        "PInt 1" plain_runtime "[(PInt 1, PInt 1)]" 0, OF e refl] f
    by simp
  have i: "loads plain_runtime [0x81, 0x80] no_options = Some (Inl UnhashableKeyException)"
    "loads plain_runtime [0x82, 0x01, 0x01, 0x01, 0xc1] no_options = Some (Inl DuplicateKeyException)"
    by code_simp+
  from a b c d e f g h i show ?thesis by blast
qed

subsection \<open>The dispatch on the tag byte\<close>

lemma nil_bool_index:
  "ic = 0xc0 \<or> ic = 0xc2 \<or> ic = 0xc3 \<Longrightarrow>
   py_index [PNone, PInt 0, PBool False, PBool True] (ic - 0xc0) = Inr (nil_bool ic)"
  by (auto simp: py_index_def nil_bool_def)

lemma load_code_table:
  "load_code rt ld code fp options =
     (case wire_table (uint code) of
        RInteger \<Rightarrow> Some (unpack_integer code fp)
      | RFloat \<Rightarrow> Some (unpack_float code fp)
      | RNilBool \<Rightarrow> Some (Inr (nil_bool (uint code), fp))
      | RString \<Rightarrow> Some (unpack_string rt code fp options)
      | RBinary \<Rightarrow> Some (unpack_binary code fp)
      | RArray \<Rightarrow> unpack_array ld code fp options
      | RMap \<Rightarrow> unpack_map rt ld code fp options
      | RExt \<Rightarrow> Some (unpack_ext rt code fp options)
      | RReserved \<Rightarrow> Some (Inl ReservedCodeException))"
proof -
  have r: "0 \<le> uint code" "uint code \<le> 0xff" using uint_byte_range[of code] by auto
  consider "uint code \<le> 0xbf" | "uint code = 0xc0 \<or> uint code = 0xc2 \<or> uint code = 0xc3"
    | "uint code = 0xc1" | "0xc4 \<le> uint code"
    by arith
  then show ?thesis
  proof cases
    case 1
    with r show ?thesis by (simp add: load_code_def wire_table_def Let_def)
  next
    case 2
    show ?thesis
      using 2 nil_bool_index[OF 2]
      by (auto simp: load_code_def wire_table_def Let_def bind_e_def)
  next
    case 3
    then show ?thesis by (simp add: load_code_def wire_table_def Let_def)
  next
    case 4
    with r show ?thesis by (auto simp: load_code_def wire_table_def Let_def)
  qed
qed


lemma re0_error:
  assumes "struct_format s = Some (UnsignedFmt n) \<or> struct_format s = Some (SignedFmt n)
           \<or> struct_format s = Some (FloatFmt n)"
    and "re0 s fp n = Inl e"
  shows "e = InsufficientDataException"
proof -
  obtain g where "re0 s fp n = bind_e (read_except fp n) (\<lambda>(data, fp'). Inr (g data, fp'))"
    using assms(1) re0_unsigned[of s n fp] re0_signed[of s n fp] re0_float[of s n fp] by metis
  with assms(2) show ?thesis
    by (cases "read_except fp n") (auto simp: bind_e_def dest: read_except_Inl)
qed

lemmas re0_errors =
  re0_error[OF disjI1, OF struct_formats(1)] re0_error[OF disjI1, OF struct_formats(2)]
  re0_error[OF disjI1, OF struct_formats(3)] re0_error[OF disjI2, OF disjI1, OF struct_formats(5)]
  re0_error[OF disjI2, OF disjI2, OF struct_formats(9)]
  re0_error[OF disjI2, OF disjI2, OF struct_formats(10)]
  re0_error[OF disjI1, OF struct_formats(1), simplified]
  re0_error[OF disjI2, OF disjI1, OF struct_formats(5), simplified]

lemma unpack_integer_error:
  assumes "wire_table (uint code) = RInteger" and "unpack_integer code fp = Inl e"
  shows "e = InsufficientDataException"
proof -
  from assms(1) consider "uint code \<le> 0x7f" | "0xe0 \<le> uint code"
    | "0xcc \<le> uint code \<and> uint code \<le> 0xd3"
    using uint_byte_range[of code]
    by (auto simp: wire_table_def split: if_splits; arith)
  then show ?thesis
  proof cases
    case 1
    then show ?thesis using assms(2) unpack_integer_fixint(1)[of code fp] by simp
  next
    case 2
    then show ?thesis using assms(2) unpack_integer_fixint(2)[of code fp] by simp
  next
    case 3
    then show ?thesis
      using assms(2) unpack_integer_wide[of code fp]
      by (auto simp: bind_e_def split: if_splits sum.splits dest: read_except_Inl)
  qed
qed

lemma unpack_float_error:
  assumes "wire_table (uint code) = RFloat" and "unpack_float code fp = Inl e"
  shows "e = InsufficientDataException"
  using assms
  by (auto simp: wire_table_def unpack_float_def Let_def split: if_splits dest: re0_errors)

lemma unpack_string_error:
  assumes "wire_table (uint code) = RString" and "unpack_string rt code fp options = Inl e"
  shows "e = InsufficientDataException \<or> e = InvalidStringException"
proof -
  from assms(1) have "(0xa0 \<le> uint code \<and> uint code \<le> 0xbf) \<or> uint code = 0xd9
      \<or> uint code = 0xda \<or> uint code = 0xdb"
    by (auto simp: wire_table_def split: if_splits)
  then show ?thesis
    using assms(2) tag_masks(3)[of code]
    by (auto simp: unpack_string_def Let_def bind_e_def
          split: if_splits sum.splits prod.splits dest: re0_errors read_except_Inl)
qed

lemma unpack_binary_error:
  assumes "wire_table (uint code) = RBinary" and "unpack_binary code fp = Inl e"
  shows "e = InsufficientDataException"
proof -
  from assms(1) have "uint code = 0xc4 \<or> uint code = 0xc5 \<or> uint code = 0xc6"
    by (auto simp: wire_table_def split: if_splits)
  then show ?thesis
    using assms(2)
    by (auto simp: unpack_binary_def Let_def bind_e_def
          split: if_splits sum.splits prod.splits dest: re0_errors read_except_Inl)
qed

lemma unpack_ext_error:
  assumes "wire_table (uint code) = RExt" and "unpack_ext rt code fp options = Inl e"
  shows "data_error e"
proof -
  from assms(1) have "uint code = 0xc7 \<or> uint code = 0xc8 \<or> uint code = 0xc9
      \<or> uint code = 0xd4 \<or> uint code = 0xd5 \<or> uint code = 0xd6 \<or> uint code = 0xd7
      \<or> uint code = 0xd8"
    by (auto simp: wire_table_def split: if_splits; arith)
  then consider "code = 0xc7" | "code = 0xc8" | "code = 0xc9" | "code = 0xd4" | "code = 0xd5"
    | "code = 0xd6" | "code = 0xd7" | "code = 0xd8"
    by (auto dest!: byte_of_uint)
  then show ?thesis
    using assms(2)
    by cases
      (auto simp: unpack_ext_def bind_e_def
         split: sum.splits prod.splits option.splits raised.splits
         dest: re0_errors read_except_Inl)
qed

lemma unpack_items_error:
  assumes "\<And>fp e. ld fp = Some (Inl e) \<Longrightarrow> data_error e"
  shows "unpack_items ld n fp = Some (Inl e) \<Longrightarrow> data_error e"
proof (induction n arbitrary: fp)
  case 0
  then show ?case by simp
next
  case (Suc n)
  then show ?case
    using assms
    by (auto simp: bind_r_def split: option.splits sum.splits prod.splits)
qed

lemma unpack_map_loop_error:
  assumes "\<And>fp e. ld fp = Some (Inl e) \<Longrightarrow> data_error e"
  shows "unpack_map_loop rt ld n d fp = Some (Inl e) \<Longrightarrow> data_error e"
proof (induction n arbitrary: d fp)
  case 0
  then show ?case by simp
next
  case (Suc n)
  show ?case
  proof (cases "ld fp")
    case None
    with Suc.prems show ?thesis by (simp add: bind_r_simps)
  next
    case (Some r)
    show ?thesis
    proof (cases r)
      case (Inl e')
      with Some Suc.prems assms[of fp e'] show ?thesis by (simp add: bind_r_simps)
    next
      case (Inr p)
      obtain k fp1 where p: "p = (k, fp1)" by (cases p)
      have k: "ld fp = Some (Inr (k, fp1))" using Some Inr p by simp
      show ?thesis
        using Suc.prems Suc.IH assms
        unfolding unpack_map_loop_step[of ld fp k fp1, OF k] Let_def
        by (auto simp: bind_r_def split: if_splits option.splits sum.splits prod.splits)
    qed
  qed
qed

lemma unpack_array_error:
  assumes "\<And>fp e. ld fp = Some (Inl e) \<Longrightarrow> data_error e"
    and "wire_table (uint code) = RArray"
    and "unpack_array ld code fp options = Some (Inl e)"
  shows "data_error e"
proof -
  from assms(2) have "(0x90 \<le> uint code \<and> uint code \<le> 0x9f) \<or> uint code = 0xdc
      \<or> uint code = 0xdd"
    by (auto simp: wire_table_def split: if_splits)
  then show ?thesis
    using assms(3) tag_masks(4)[of code] unpack_items_error[of ld, OF assms(1)]
    by (auto simp: unpack_array_def Let_def bind_r_def
          split: if_splits option.splits sum.splits prod.splits dest: re0_errors)
qed

lemma unpack_map_error:
  assumes "\<And>fp e. ld fp = Some (Inl e) \<Longrightarrow> data_error e"
    and "wire_table (uint code) = RMap"
    and "unpack_map rt ld code fp options = Some (Inl e)"
  shows "data_error e"
proof -
  from assms(2) have "(0x80 \<le> uint code \<and> uint code \<le> 0x8f) \<or> uint code = 0xde
      \<or> uint code = 0xdf"
    by (auto simp: wire_table_def split: if_splits)
  then show ?thesis
    using assms(3) tag_masks(5)[of code] unpack_map_loop_error[of ld, OF assms(1)]
    by (auto simp: unpack_map_def Let_def bind_r_def
          split: if_splits option.splits sum.splits prod.splits dest: re0_errors)
qed

lemma load_code_error:
  assumes "\<And>fp e. ld fp = Some (Inl e) \<Longrightarrow> data_error e"
    and "load_code rt ld code fp options = Some (Inl e)"
  shows "data_error e"
  using assms(2) unpack_integer_error[of code fp e] unpack_float_error[of code fp e]
    unpack_string_error[of code rt fp options e] unpack_binary_error[of code fp e]
    unpack_ext_error[of code rt fp options e]
    unpack_array_error[of ld code fp options e, OF assms(1)]
    unpack_map_error[of ld code rt fp options e, OF assms(1)]
  unfolding load_code_table
  by (cases "wire_table (uint code)") auto

lemma load_error: "load depth rt fp options = Some (Inl e) \<Longrightarrow> data_error e"
proof (induction depth arbitrary: fp e)
  case 0
  then show ?case by simp
next
  case (Suc depth)
  show ?case
  proof (cases "read_except fp 1")
    case (Inl e')
    with Suc.prems read_except_Inl[OF Inl] show ?thesis by (simp add: bind_r_simps)
  next
    case (Inr p)
    obtain data fp' where p: "p = (data, fp')" by (cases p)
    have "length data = 1" using read_except_Inr(1)[of fp 1 data fp'] Inr p by simp
    then obtain c where c: "data = [c]" by (cases data) auto
    from Suc.prems Inr p c
    have "load_code rt (\<lambda>fp. load depth rt fp options) c fp' options = Some (Inl e)"
      by (simp add: bind_r_simps)
    then show ?thesis
      using load_code_error[of "\<lambda>fp. load depth rt fp options"] Suc.IH by blast
  qed
qed

lemma load_step:
  assumes "read_except fp 1 = Inr ([c], fp')"
  shows "load (Suc depth) rt fp options
         = load_code rt (\<lambda>fp. load depth rt fp options) c fp' options"
  using assms by (simp add: bind_r_simps)

text \<open>
  C1.  \<open>load\<close> reads one tag byte and sends it to the one decode routine that the
  wire-format table gives it: integer, float, nil or boolean, string, binary, array, map
  or extension, the composite routines decoding their elements with \<open>load\<close> itself; the
  reserved tag \<open>0xc1\<close> fails with \<open>ReservedCodeException\<close>, and nothing else is left
  over.  Every routine accepts the tags it is sent: whatever the input, the options and the
  runtime, an error that \<open>load\<close> returns is an outcome of the data or of a callback, never
  the \<open>Exception('Logic error')\<close> of \<open>_fail\<close> nor an error of \<open>struct.unpack\<close>, of
  indexing or of \<open>ord\<close>.
\<close>

theorem load_dispatch_total:
  "load_code rt ld code fp options =
     (case wire_table (uint code) of
        RInteger \<Rightarrow> Some (unpack_integer code fp)
      | RFloat \<Rightarrow> Some (unpack_float code fp)
      | RNilBool \<Rightarrow> Some (Inr (nil_bool (uint code), fp))
      | RString \<Rightarrow> Some (unpack_string rt code fp options)
      | RBinary \<Rightarrow> Some (unpack_binary code fp)
      | RArray \<Rightarrow> unpack_array ld code fp options
      | RMap \<Rightarrow> unpack_map rt ld code fp options
      | RExt \<Rightarrow> Some (unpack_ext rt code fp options)
      | RReserved \<Rightarrow> Some (Inl ReservedCodeException)) \<and>
   (\<forall>c fp'. read_except fp 1 = Inr ([c], fp') \<longrightarrow>
      load (Suc depth) rt fp options =
        (case wire_table (uint c) of
           RInteger \<Rightarrow> Some (unpack_integer c fp')
         | RFloat \<Rightarrow> Some (unpack_float c fp')
         | RNilBool \<Rightarrow> Some (Inr (nil_bool (uint c), fp'))
         | RString \<Rightarrow> Some (unpack_string rt c fp' options)
         | RBinary \<Rightarrow> Some (unpack_binary c fp')
         | RArray \<Rightarrow> unpack_array (\<lambda>fp. load depth rt fp options) c fp' options
         | RMap \<Rightarrow> unpack_map rt (\<lambda>fp. load depth rt fp options) c fp' options
         | RExt \<Rightarrow> Some (unpack_ext rt c fp' options)
         | RReserved \<Rightarrow> Some (Inl ReservedCodeException))) \<and>
   (\<forall>e. read_except fp 1 = Inl e \<longrightarrow>
      load (Suc depth) rt fp options = Some (Inl InsufficientDataException)) \<and>
   (uint code = 0xc1 \<longrightarrow> load_code rt ld code fp options = Some (Inl ReservedCodeException)) \<and>
   (\<forall>fp'. read_except fp 1 = Inr ([0xc1], fp') \<longrightarrow>
      load (Suc depth) rt fp options = Some (Inl ReservedCodeException)) \<and>
   (\<forall>e. load depth rt fp options = Some (Inl e) \<longrightarrow> data_error e) \<and>
   load depth rt fp options \<noteq> Some (Inl LogicError)"
proof (intro conjI allI impI)
  show "load_code rt ld code fp options =
     (case wire_table (uint code) of
        RInteger \<Rightarrow> Some (unpack_integer code fp)
      | RFloat \<Rightarrow> Some (unpack_float code fp)
      | RNilBool \<Rightarrow> Some (Inr (nil_bool (uint code), fp))
      | RString \<Rightarrow> Some (unpack_string rt code fp options)
      | RBinary \<Rightarrow> Some (unpack_binary code fp)
      | RArray \<Rightarrow> unpack_array ld code fp options
      | RMap \<Rightarrow> unpack_map rt ld code fp options
      | RExt \<Rightarrow> Some (unpack_ext rt code fp options)
      | RReserved \<Rightarrow> Some (Inl ReservedCodeException))"
    by (rule load_code_table)
next
  fix c fp'
  assume "read_except fp 1 = Inr ([c], fp')"
  then have "load (Suc depth) rt fp options
         = load_code rt (\<lambda>fp. load depth rt fp options) c fp' options"
    by (rule load_step)
  then show "load (Suc depth) rt fp options =
        (case wire_table (uint c) of
           RInteger \<Rightarrow> Some (unpack_integer c fp')
         | RFloat \<Rightarrow> Some (unpack_float c fp')
         | RNilBool \<Rightarrow> Some (Inr (nil_bool (uint c), fp'))
         | RString \<Rightarrow> Some (unpack_string rt c fp' options)
         | RBinary \<Rightarrow> Some (unpack_binary c fp')
         | RArray \<Rightarrow> unpack_array (\<lambda>fp. load depth rt fp options) c fp' options
         | RMap \<Rightarrow> unpack_map rt (\<lambda>fp. load depth rt fp options) c fp' options
         | RExt \<Rightarrow> Some (unpack_ext rt c fp' options)
         | RReserved \<Rightarrow> Some (Inl ReservedCodeException))"
    by (simp only: load_code_table)
next
  fix e
  assume "read_except fp 1 = Inl e"
  then show "load (Suc depth) rt fp options = Some (Inl InsufficientDataException)"
    using read_except_Inl[of fp 1 e] by (simp add: bind_r_simps)
next
  assume "uint code = 0xc1"
  then show "load_code rt ld code fp options = Some (Inl ReservedCodeException)"
    by (simp add: load_code_table wire_table_def)
next
  fix fp'
  assume "read_except fp 1 = Inr ([0xc1], fp')"
  then show "load (Suc depth) rt fp options = Some (Inl ReservedCodeException)"
    by (simp add: bind_r_simps load_code_table wire_table_def)
next
  fix e
  assume "load depth rt fp options = Some (Inl e)"
  then show "data_error e" by (rule load_error)
next
  show "load depth rt fp options \<noteq> Some (Inl LogicError)"
    using load_error[of depth rt fp options LogicError] by auto
qed

theorem load_dispatch_total_witness:
  "read_except (BytesIO [0x01]) 1 = Inr ([0x01], \<lparr>pending = [], reads = 1\<rparr>) \<and>
   load (Suc 1) plain_runtime (BytesIO [0x01]) no_options
     = Some (Inr (PInt 1, \<lparr>pending = [], reads = 1\<rparr>)) \<and>
   read_except (BytesIO [0xca, 0x3f, 0x80, 0x00, 0x00]) 1 = Inr ([0xca], \<lparr>pending = [[0x3f, 0x80, 0x00, 0x00]], reads = 1\<rparr>) \<and>
   load (Suc 1) plain_runtime (BytesIO [0xca, 0x3f, 0x80, 0x00, 0x00]) no_options
     = Some (Inr (PFloat [0x3f, 0x80, 0x00, 0x00], \<lparr>pending = [], reads = 2\<rparr>)) \<and>
   read_except (BytesIO [0xc3]) 1 = Inr ([0xc3], \<lparr>pending = [], reads = 1\<rparr>) \<and>
   load (Suc 1) plain_runtime (BytesIO [0xc3]) no_options
     = Some (Inr (PBool True, \<lparr>pending = [], reads = 1\<rparr>)) \<and>
   read_except (BytesIO [0xa1, 0x61]) 1 = Inr ([0xa1], \<lparr>pending = [[0x61]], reads = 1\<rparr>) \<and>
   load (Suc 1) plain_runtime (BytesIO [0xa1, 0x61]) no_options
     = Some (Inr (PStr [0x61], \<lparr>pending = [], reads = 2\<rparr>)) \<and>
   read_except (BytesIO [0xc4, 0x01, 0xff]) 1 = Inr ([0xc4], \<lparr>pending = [[0x01, 0xff]], reads = 1\<rparr>) \<and>
   load (Suc 1) plain_runtime (BytesIO [0xc4, 0x01, 0xff]) no_options
     = Some (Inr (PBytes [0xff], \<lparr>pending = [], reads = 3\<rparr>)) \<and>
   read_except (BytesIO [0x91, 0x01]) 1 = Inr ([0x91], \<lparr>pending = [[0x01]], reads = 1\<rparr>) \<and>
   load (Suc 1) plain_runtime (BytesIO [0x91, 0x01]) no_options
     = Some (Inr (PList [PInt 1], \<lparr>pending = [], reads = 2\<rparr>)) \<and>
   read_except (BytesIO [0x81, 0x01, 0x02]) 1 = Inr ([0x81], \<lparr>pending = [[0x01, 0x02]], reads = 1\<rparr>) \<and>
   load (Suc 1) plain_runtime (BytesIO [0x81, 0x01, 0x02]) no_options
     = Some (Inr (PDict False [(PInt 1, PInt 2)], \<lparr>pending = [], reads = 3\<rparr>)) \<and>
   read_except (BytesIO [0xd4, 0x05, 0xaa]) 1 = Inr ([0xd4], \<lparr>pending = [[0x05, 0xaa]], reads = 1\<rparr>) \<and>
   load (Suc 1) plain_runtime (BytesIO [0xd4, 0x05, 0xaa]) no_options
     = Some (Inr (PExt 5 [0xaa], \<lparr>pending = [], reads = 3\<rparr>)) \<and>
   read_except (BytesIO []) 1 = Inl InsufficientDataException \<and>
   load (Suc 1) plain_runtime (BytesIO []) no_options = Some (Inl InsufficientDataException) \<and>
   uint (0xc1 :: byte) = 0xc1 \<and>
   load_code plain_runtime (\<lambda>fp. None) 0xc1 (BytesIO []) no_options
     = Some (Inl ReservedCodeException) \<and>
   read_except (BytesIO [0xc1, 0x01]) 1 = Inr ([0xc1], \<lparr>pending = [[0x01]], reads = 1\<rparr>) \<and>
   load (Suc 0) plain_runtime (BytesIO [0xc1, 0x01]) no_options = Some (Inl ReservedCodeException) \<and>
   load 2 plain_runtime (BytesIO [0x91]) no_options = Some (Inl InsufficientDataException) \<and>
   data_error InsufficientDataException"
proof -
  have r_int: "read_except (BytesIO [0x01]) 1 = Inr ([0x01], \<lparr>pending = [], reads = 1\<rparr>)"
    by code_simp
  have s_int: "unpack_integer 0x01 \<lparr>pending = [], reads = 1\<rparr> = Inr (PInt 1, \<lparr>pending = [], reads = 1\<rparr>)"
    by code_simp
  have w_int: "wire_table (uint (0x01 :: byte)) = RInteger"
    by (simp add: wire_table_def)
  have l_int: "load (Suc 1) plain_runtime (BytesIO [0x01]) no_options
     = Some (Inr (PInt 1, \<lparr>pending = [], reads = 1\<rparr>))"
    by (simp only: load_dispatch_total[where fp = "BytesIO [0x01]" and depth = 1 and rt = plain_runtime
        and options = no_options, THEN conjunct2, THEN conjunct1, rule_format, OF r_int]
        w_int routine.case s_int)
  have r_float: "read_except (BytesIO [0xca, 0x3f, 0x80, 0x00, 0x00]) 1 = Inr ([0xca], \<lparr>pending = [[0x3f, 0x80, 0x00, 0x00]], reads = 1\<rparr>)"
    by code_simp
  have s_float: "unpack_float 0xca \<lparr>pending = [[0x3f, 0x80, 0x00, 0x00]], reads = 1\<rparr> = Inr (PFloat [0x3f, 0x80, 0x00, 0x00], \<lparr>pending = [], reads = 2\<rparr>)"
    by code_simp
  have w_float: "wire_table (uint (0xca :: byte)) = RFloat"
    by (simp add: wire_table_def)
  have l_float: "load (Suc 1) plain_runtime (BytesIO [0xca, 0x3f, 0x80, 0x00, 0x00]) no_options
     = Some (Inr (PFloat [0x3f, 0x80, 0x00, 0x00], \<lparr>pending = [], reads = 2\<rparr>))"
    by (simp only: load_dispatch_total[where fp = "BytesIO [0xca, 0x3f, 0x80, 0x00, 0x00]" and depth = 1 and rt = plain_runtime
        and options = no_options, THEN conjunct2, THEN conjunct1, rule_format, OF r_float]
        w_float routine.case s_float)
  have r_bool: "read_except (BytesIO [0xc3]) 1 = Inr ([0xc3], \<lparr>pending = [], reads = 1\<rparr>)"
    by code_simp
  have w_bool: "wire_table (uint (0xc3 :: byte)) = RNilBool"
    by (simp add: wire_table_def)
  have s_bool: "nil_bool (uint (0xc3 :: byte)) = PBool True"
    by (simp add: nil_bool_def)
  have l_bool: "load (Suc 1) plain_runtime (BytesIO [0xc3]) no_options
     = Some (Inr (PBool True, \<lparr>pending = [], reads = 1\<rparr>))"
    by (simp only: load_dispatch_total[where fp = "BytesIO [0xc3]" and depth = 1 and rt = plain_runtime
        and options = no_options, THEN conjunct2, THEN conjunct1, rule_format, OF r_bool]
        w_bool routine.case s_bool)
  have r_str: "read_except (BytesIO [0xa1, 0x61]) 1 = Inr ([0xa1], \<lparr>pending = [[0x61]], reads = 1\<rparr>)"
    by code_simp
  have s_str: "unpack_string plain_runtime 0xa1 \<lparr>pending = [[0x61]], reads = 1\<rparr> no_options = Inr (PStr [0x61], \<lparr>pending = [], reads = 2\<rparr>)"
    by code_simp
  have w_str: "wire_table (uint (0xa1 :: byte)) = RString"
    by (simp add: wire_table_def)
  have l_str: "load (Suc 1) plain_runtime (BytesIO [0xa1, 0x61]) no_options
     = Some (Inr (PStr [0x61], \<lparr>pending = [], reads = 2\<rparr>))"
    by (simp only: load_dispatch_total[where fp = "BytesIO [0xa1, 0x61]" and depth = 1 and rt = plain_runtime
        and options = no_options, THEN conjunct2, THEN conjunct1, rule_format, OF r_str]
        w_str routine.case s_str)
  have r_bin: "read_except (BytesIO [0xc4, 0x01, 0xff]) 1 = Inr ([0xc4], \<lparr>pending = [[0x01, 0xff]], reads = 1\<rparr>)"
    by code_simp
  have s_bin: "unpack_binary 0xc4 \<lparr>pending = [[0x01, 0xff]], reads = 1\<rparr> = Inr (PBytes [0xff], \<lparr>pending = [], reads = 3\<rparr>)"
    by code_simp
  have w_bin: "wire_table (uint (0xc4 :: byte)) = RBinary"
    by (simp add: wire_table_def)
  have l_bin: "load (Suc 1) plain_runtime (BytesIO [0xc4, 0x01, 0xff]) no_options
     = Some (Inr (PBytes [0xff], \<lparr>pending = [], reads = 3\<rparr>))"
    by (simp only: load_dispatch_total[where fp = "BytesIO [0xc4, 0x01, 0xff]" and depth = 1 and rt = plain_runtime
        and options = no_options, THEN conjunct2, THEN conjunct1, rule_format, OF r_bin]
        w_bin routine.case s_bin)
  have r_arr: "read_except (BytesIO [0x91, 0x01]) 1 = Inr ([0x91], \<lparr>pending = [[0x01]], reads = 1\<rparr>)"
    by code_simp
  have s_arr: "unpack_array (\<lambda>fp. load 1 plain_runtime fp no_options) 0x91 \<lparr>pending = [[0x01]], reads = 1\<rparr> no_options = Some (Inr (PList [PInt 1], \<lparr>pending = [], reads = 2\<rparr>))"
    by code_simp
  have w_arr: "wire_table (uint (0x91 :: byte)) = RArray"
    by (simp add: wire_table_def)
  have l_arr: "load (Suc 1) plain_runtime (BytesIO [0x91, 0x01]) no_options
     = Some (Inr (PList [PInt 1], \<lparr>pending = [], reads = 2\<rparr>))"
    by (simp only: load_dispatch_total[where fp = "BytesIO [0x91, 0x01]" and depth = 1 and rt = plain_runtime
        and options = no_options, THEN conjunct2, THEN conjunct1, rule_format, OF r_arr]
        w_arr routine.case s_arr)
  have r_map: "read_except (BytesIO [0x81, 0x01, 0x02]) 1 = Inr ([0x81], \<lparr>pending = [[0x01, 0x02]], reads = 1\<rparr>)"
    by code_simp
  have s_map: "unpack_map plain_runtime (\<lambda>fp. load 1 plain_runtime fp no_options) 0x81 \<lparr>pending = [[0x01, 0x02]], reads = 1\<rparr> no_options = Some (Inr (PDict False [(PInt 1, PInt 2)], \<lparr>pending = [], reads = 3\<rparr>))"
    by code_simp
  have w_map: "wire_table (uint (0x81 :: byte)) = RMap"
    by (simp add: wire_table_def)
  have l_map: "load (Suc 1) plain_runtime (BytesIO [0x81, 0x01, 0x02]) no_options
     = Some (Inr (PDict False [(PInt 1, PInt 2)], \<lparr>pending = [], reads = 3\<rparr>))"
    by (simp only: load_dispatch_total[where fp = "BytesIO [0x81, 0x01, 0x02]" and depth = 1 and rt = plain_runtime
        and options = no_options, THEN conjunct2, THEN conjunct1, rule_format, OF r_map]
        w_map routine.case s_map)
  have r_ext: "read_except (BytesIO [0xd4, 0x05, 0xaa]) 1 = Inr ([0xd4], \<lparr>pending = [[0x05, 0xaa]], reads = 1\<rparr>)"
    by code_simp
  have s_ext: "unpack_ext plain_runtime 0xd4 \<lparr>pending = [[0x05, 0xaa]], reads = 1\<rparr> no_options = Inr (PExt 5 [0xaa], \<lparr>pending = [], reads = 3\<rparr>)"
    by code_simp
  have w_ext: "wire_table (uint (0xd4 :: byte)) = RExt"
    by (simp add: wire_table_def)
  have l_ext: "load (Suc 1) plain_runtime (BytesIO [0xd4, 0x05, 0xaa]) no_options
     = Some (Inr (PExt 5 [0xaa], \<lparr>pending = [], reads = 3\<rparr>))"
    by (simp only: load_dispatch_total[where fp = "BytesIO [0xd4, 0x05, 0xaa]" and depth = 1 and rt = plain_runtime
        and options = no_options, THEN conjunct2, THEN conjunct1, rule_format, OF r_ext]
        w_ext routine.case s_ext)
  have r_empty: "read_except (BytesIO []) 1 = Inl InsufficientDataException"
    by code_simp
  have l_empty: "load (Suc 1) plain_runtime (BytesIO []) no_options
     = Some (Inl InsufficientDataException)"
    using load_dispatch_total[where fp = "BytesIO []" and depth = 1 and rt = plain_runtime
        and options = no_options, THEN conjunct2, THEN conjunct2, THEN conjunct1, rule_format,
        OF r_empty] .
  have a: "uint (0xc1 :: byte) = 0xc1" by simp
  have b: "load_code plain_runtime (\<lambda>fp. None) 0xc1 (BytesIO []) no_options
     = Some (Inl ReservedCodeException)"
    using load_dispatch_total[of plain_runtime "\<lambda>fp. None" "0xc1" "BytesIO []" no_options 0] a
    by blast
  have c: "read_except (BytesIO [0xc1, 0x01]) 1 = Inr ([0xc1], \<lparr>pending = [[0x01]], reads = 1\<rparr>)"
    by code_simp
  have d: "load (Suc 0) plain_runtime (BytesIO [0xc1, 0x01]) no_options
     = Some (Inl ReservedCodeException)"
    using load_dispatch_total[of plain_runtime "\<lambda>fp. None" "0xc1" "BytesIO [0xc1, 0x01]" no_options 0] c
    by blast
  have e: "load 2 plain_runtime (BytesIO [0x91]) no_options = Some (Inl InsufficientDataException)"
    by code_simp
  have f: "data_error InsufficientDataException"
    using load_dispatch_total[of plain_runtime "\<lambda>fp. None" "0xc1" "BytesIO [0x91]" no_options 2] e
    by blast
  from r_int l_int r_float l_float r_bool l_bool r_str l_str r_bin l_bin r_arr l_arr r_map l_map r_ext l_ext r_empty l_empty a b c d e f
  show ?thesis by blast
qed

subsection \<open>A longer buffer: the same run, unless the shorter one ran out of data\<close>

lemma agree_e_Inl: "agree_e t (Inl e) (Inl e)"
  by (simp add: agree_e_def)

lemma agree_e_Inr: "longer t fp1 fp2 \<Longrightarrow> agree_e t (Inr (v, fp1)) (Inr (v, fp2))"
  by (simp add: agree_e_def)

lemma agree_e_bind:
  assumes "agree_e t m1 m2"
    and "\<And>v fp1 fp2. longer t fp1 fp2 \<Longrightarrow> agree_e t (f (v, fp1)) (g (v, fp2))"
  shows "agree_e t (bind_e m1 f) (bind_e m2 g)"
proof (cases m1)
  case (Inl e)
  with assms(1) show ?thesis by (auto simp: agree_e_def bind_e_def)
next
  case (Inr p)
  obtain v fp1 where "p = (v, fp1)" by (cases p)
  with Inr assms(1) obtain fp2 where "m2 = Inr (v, fp2)" "longer t fp1 fp2" "m1 = Inr (v, fp1)"
    by (auto simp: agree_e_def)
  with assms(2)[of fp1 fp2 v] show ?thesis by (simp add: bind_e_def)
qed

lemma agree_read_except:
  assumes "longer t fp1 fp2"
  shows "agree_e t (read_except fp1 n) (read_except fp2 n)"
proof (cases "n \<le> length (buf fp1)")
  case True
  from assms have b: "buffered fp1" "buffered fp2" "buf fp2 = buf fp1 @ t"
    by (simp_all add: longer_def)
  obtain fp1' where 1: "read_except fp1 n = Inr (take n (buf fp1), fp1')"
    "buf fp1' = drop n (buf fp1)" "buffered fp1'"
    using read_except_buffered(1)[OF b(1) True] by blast
  have "n \<le> length (buf fp2)" using True b(3) by simp
  then obtain fp2' where 2: "read_except fp2 n = Inr (take n (buf fp2), fp2')"
    "buf fp2' = drop n (buf fp2)" "buffered fp2'"
    using read_except_buffered(1)[OF b(2)] by blast
  show ?thesis
    using 1 2 True b(3) by (simp add: agree_e_def longer_def)
next
  case False
  then have "read_except fp1 n = Inl InsufficientDataException"
    using read_except_buffered(2)[of fp1 n] assms by (simp add: longer_def)
  then show ?thesis by (simp add: agree_e_def)
qed

lemma agree_re0:
  assumes "longer t fp1 fp2"
  shows "agree_e t (re0 s fp1 n) (re0 s fp2 n)"
  unfolding re0_def
  by (rule agree_e_bind[OF agree_read_except[OF assms]])
     (auto simp: bind_e_def intro: agree_e_Inl agree_e_Inr split: sum.splits)

lemma agree_unpack_integer:
  assumes "longer t fp1 fp2"
  shows "agree_e t (unpack_integer code fp1) (unpack_integer code fp2)"
  using assms agree_re0[OF assms]
  by (auto simp: unpack_integer_def Let_def bind_e_def intro: agree_e_Inl agree_e_Inr
        split: sum.splits)

lemma agree_unpack_float:
  assumes "longer t fp1 fp2"
  shows "agree_e t (unpack_float code fp1) (unpack_float code fp2)"
  using agree_re0[OF assms]
  by (auto simp: unpack_float_def Let_def intro: agree_e_Inl)

lemma agree_header:
  assumes "longer t fp1 fp2"
  shows "agree_e t (if c0 then Inr (v, fp1) else if c1 then re0 s1 fp1 n1
                     else if c2 then re0 s2 fp1 n2 else if c3 then re0 s3 fp1 n3 else Inl e)
                   (if c0 then Inr (v, fp2) else if c1 then re0 s1 fp2 n1
                     else if c2 then re0 s2 fp2 n2 else if c3 then re0 s3 fp2 n3 else Inl e)"
  using assms agree_re0[OF assms] by (auto intro: agree_e_Inl agree_e_Inr)

lemma agree_unpack_string:
  assumes "longer t fp1 fp2"
  shows "agree_e t (unpack_string rt code fp1 options) (unpack_string rt code fp2 options)"
  unfolding unpack_string_def Let_def
  apply (rule agree_e_bind[OF agree_header[OF assms]])
  apply (simp only: prod.case)
  apply (rule agree_e_bind[OF agree_read_except])
   apply assumption
  apply (auto intro: agree_e_Inl agree_e_Inr)
  done

lemma agree_unpack_binary:
  assumes "longer t fp1 fp2"
  shows "agree_e t (unpack_binary code fp1) (unpack_binary code fp2)"
  unfolding unpack_binary_def Let_def
  apply (rule agree_e_bind[OF agree_header[OF assms, where ?c0.0 = False, simplified]])
  apply (simp only: prod.case)
  apply (rule agree_e_bind[OF agree_read_except])
   apply assumption
  apply (auto intro: agree_e_Inr)
  done

lemma agree_unpack_ext:
  assumes "longer t fp1 fp2"
  shows "agree_e t (unpack_ext rt code fp1 options) (unpack_ext rt code fp2 options)"
proof -
  have h: "agree_e t
     (if l = 0 then (if c1 then re0 s1 fp1 n1 else if c2 then re0 s2 fp1 n2
                     else if c3 then re0 s3 fp1 n3 else Inl e)
      else Inr (PInt l, fp1))
     (if l = 0 then (if c1 then re0 s1 fp2 n1 else if c2 then re0 s2 fp2 n2
                     else if c3 then re0 s3 fp2 n3 else Inl e)
      else Inr (PInt l, fp2))" for l :: int and c1 c2 c3 s1 s2 s3 n1 n2 n3 e
    using assms agree_re0[OF assms] by (auto intro: agree_e_Inl agree_e_Inr)
  show ?thesis
    unfolding unpack_ext_def Let_def
    apply (rule agree_e_bind[OF h])
    apply (simp only: prod.case)
    apply (rule agree_e_bind[OF agree_re0])
     apply assumption
    apply (simp only: prod.case)
    apply (rule agree_e_bind[OF agree_read_except])
     apply assumption
    apply (auto intro: agree_e_Inl agree_e_Inr split: option.splits sum.splits raised.splits)
    done
qed

lemma agree_r_Some: "agree_e t x y \<Longrightarrow> agree_r t (Some x) (Some y)"
  by (simp add: agree_r_def)

lemma agree_r_bind:
  assumes "agree_r t m1 m2"
    and "\<And>v fp1 fp2. longer t fp1 fp2 \<Longrightarrow> agree_r t (f (v, fp1)) (g (v, fp2))"
  shows "agree_r t (bind_r m1 f) (bind_r m2 g)"
proof (cases m1)
  case None
  with assms(1) show ?thesis by (simp add: agree_r_def bind_r_def)
next
  case (Some x)
  show ?thesis
  proof (cases x)
    case (Inl e)
    with Some assms(1) show ?thesis
      by (auto simp: agree_r_def agree_e_def bind_r_def)
  next
    case (Inr p)
    obtain v fp1 where "p = (v, fp1)" by (cases p)
    with Inr Some assms(1) obtain fp2 where "m2 = Some (Inr (v, fp2))" "longer t fp1 fp2"
      "m1 = Some (Inr (v, fp1))"
      by (auto simp: agree_r_def agree_e_def)
    with assms(2)[of fp1 fp2 v] show ?thesis by (simp add: bind_r_def)
  qed
qed

lemma agree_unpack_items:
  assumes ld: "\<And>fp1 fp2. longer t fp1 fp2 \<Longrightarrow> agree_r t (ld fp1) (ld fp2)"
  shows "longer t fp1 fp2 \<Longrightarrow> agree_r t (unpack_items ld n fp1) (unpack_items ld n fp2)"
proof (induction n arbitrary: fp1 fp2)
  case 0
  then show ?case by (simp add: agree_r_Some agree_e_Inr)
next
  case (Suc n)
  show ?case
    unfolding unpack_items.simps
    apply (rule agree_r_bind[OF ld[OF Suc.prems]])
    apply (simp only: prod.case)
    apply (rule agree_r_bind[OF Suc.IH])
     apply assumption
    apply (simp add: agree_r_Some agree_e_Inr)
    done
qed

lemma agree_unpack_map_loop:
  assumes ld: "\<And>fp1 fp2. longer t fp1 fp2 \<Longrightarrow> agree_r t (ld fp1) (ld fp2)"
  shows "longer t fp1 fp2 \<Longrightarrow>
         agree_r t (unpack_map_loop rt ld n d fp1) (unpack_map_loop rt ld n d fp2)"
proof (induction n arbitrary: d fp1 fp2)
  case 0
  then show ?case by (simp add: agree_r_Some agree_e_Inr)
next
  case (Suc n)
  have same: "agree_r t (Some (Inl e)) (Some (Inl e))" for e
    by (simp add: agree_r_Some agree_e_Inl)
  have store: "agree_r t
      (case dict_setitem rt d k v of
         Inl TypeError \<Rightarrow> Some (Inl UnhashableKeyException)
       | Inl e \<Rightarrow> Some (Inl e)
       | Inr d \<Rightarrow> unpack_map_loop rt ld n d fpa)
      (case dict_setitem rt d k v of
         Inl TypeError \<Rightarrow> Some (Inl UnhashableKeyException)
       | Inl e \<Rightarrow> Some (Inl e)
       | Inr d \<Rightarrow> unpack_map_loop rt ld n d fpb)"
    if "longer t fpa fpb" for k v fpa fpb
    using Suc.IH[OF that] by (auto simp: same split: sum.splits error.splits)
  have val: "agree_r t
      (bind_r (ld fpa) (\<lambda>(v, fp).
         case dict_setitem rt d k v of
           Inl TypeError \<Rightarrow> Some (Inl UnhashableKeyException)
         | Inl e \<Rightarrow> Some (Inl e)
         | Inr d \<Rightarrow> unpack_map_loop rt ld n d fp))
      (bind_r (ld fpb) (\<lambda>(v, fp).
         case dict_setitem rt d k v of
           Inl TypeError \<Rightarrow> Some (Inl UnhashableKeyException)
         | Inl e \<Rightarrow> Some (Inl e)
         | Inr d \<Rightarrow> unpack_map_loop rt ld n d fp))"
    if "longer t fpa fpb" for k fpa fpb
    by (rule agree_r_bind[OF ld[OF that]]) (simp only: prod.case store)
  show ?case
    unfolding unpack_map_loop.simps
    by (rule agree_r_bind[OF ld[OF Suc.prems]]) (simp add: Let_def same val)
qed

lemma agree_header3:
  assumes "longer t fp1 fp2"
  shows "agree_e t (if c0 then Inr (v, fp1) else if c1 then re0 s1 fp1 n1
                     else if c2 then re0 s2 fp1 n2 else Inl e)
                   (if c0 then Inr (v, fp2) else if c1 then re0 s1 fp2 n1
                     else if c2 then re0 s2 fp2 n2 else Inl e)"
  using assms agree_re0[OF assms] by (auto intro: agree_e_Inl agree_e_Inr)

lemma agree_unpack_array:
  assumes ld: "\<And>fp1 fp2. longer t fp1 fp2 \<Longrightarrow> agree_r t (ld fp1) (ld fp2)"
    and "longer t fp1 fp2"
  shows "agree_r t (unpack_array ld code fp1 options) (unpack_array ld code fp2 options)"
  unfolding unpack_array_def Let_def
  apply (rule agree_r_bind[OF agree_r_Some[OF agree_header3[OF assms(2)]]])
  apply (simp only: prod.case)
  apply (rule agree_r_bind[OF agree_unpack_items[of t ld, OF ld]])
    apply assumption
   apply assumption
  apply (simp add: agree_r_Some agree_e_Inr)
  done

lemma agree_unpack_map:
  assumes ld: "\<And>fp1 fp2. longer t fp1 fp2 \<Longrightarrow> agree_r t (ld fp1) (ld fp2)"
    and "longer t fp1 fp2"
  shows "agree_r t (unpack_map rt ld code fp1 options) (unpack_map rt ld code fp2 options)"
  unfolding unpack_map_def Let_def
  apply (rule agree_r_bind[OF agree_r_Some[OF agree_header3[OF assms(2)]]])
  apply (simp only: prod.case)
  apply (rule agree_r_bind[OF agree_unpack_map_loop[of t ld, OF ld]])
    apply assumption
   apply assumption
  apply (simp add: agree_r_Some agree_e_Inr)
  done

lemma agree_load_code:
  assumes ld: "\<And>fp1 fp2. longer t fp1 fp2 \<Longrightarrow> agree_r t (ld fp1) (ld fp2)"
    and l: "longer t fp1 fp2"
  shows "agree_r t (load_code rt ld code fp1 options) (load_code rt ld code fp2 options)"
  unfolding load_code_table
  using agree_unpack_integer[OF l] agree_unpack_float[OF l] agree_unpack_string[OF l]
    agree_unpack_binary[OF l] agree_unpack_ext[OF l]
    agree_unpack_array[of t ld, OF ld l] agree_unpack_map[of t ld, OF ld l] l
  by (cases "wire_table (uint code)") (simp_all add: agree_r_Some agree_e_Inl agree_e_Inr)

lemma agree_load:
  "longer t fp1 fp2 \<Longrightarrow> agree_r t (load depth rt fp1 options) (load depth rt fp2 options)"
proof (induction depth arbitrary: fp1 fp2)
  case 0
  then show ?case by (simp add: agree_r_def)
next
  case (Suc depth)
  show ?case
    unfolding load.simps
    apply (rule agree_r_bind[OF agree_r_Some[OF agree_read_except[OF Suc.prems]]])
    apply (simp only: prod.case)
    apply (auto split: list.splits simp: agree_r_Some agree_e_Inl
             intro!: agree_load_code Suc.IH)
    done
qed

subsection \<open>More depth changes no result\<close>

lemma bind_r_le:
  assumes "m1 = None \<or> m2 = m1"
    and "\<And>x. f x = None \<or> g x = f x"
  shows "bind_r m1 f = None \<or> bind_r m2 g = bind_r m1 f"
  using assms by (auto simp: bind_r_def split: option.splits sum.splits)

lemma unpack_items_le:
  assumes ld: "\<And>fp. ld1 fp = None \<or> ld2 fp = ld1 fp"
  shows "unpack_items ld1 n fp = None \<or> unpack_items ld2 n fp = unpack_items ld1 n fp"
proof (induction n arbitrary: fp)
  case 0
  then show ?case by simp
next
  case (Suc n)
  have inner: "bind_r (unpack_items ld1 n fp') (\<lambda>(vs, fp). Some (Inr (v # vs, fp))) = None \<or>
        bind_r (unpack_items ld2 n fp') (\<lambda>(vs, fp). Some (Inr (v # vs, fp)))
        = bind_r (unpack_items ld1 n fp') (\<lambda>(vs, fp). Some (Inr (v # vs, fp)))" for v fp'
    by (rule bind_r_le[OF Suc.IH]) simp
  show ?case
    unfolding unpack_items.simps
    by (rule bind_r_le[OF ld]) (simp add: inner split: prod.splits)
qed

lemma unpack_map_loop_le:
  assumes ld: "\<And>fp. ld1 fp = None \<or> ld2 fp = ld1 fp"
  shows "unpack_map_loop rt ld1 n d fp = None \<or>
         unpack_map_loop rt ld2 n d fp = unpack_map_loop rt ld1 n d fp"
proof (induction n arbitrary: d fp)
  case 0
  then show ?case by simp
next
  case (Suc n)
  have store: "(case dict_setitem rt d k v of
         Inl TypeError \<Rightarrow> Some (Inl UnhashableKeyException)
       | Inl e \<Rightarrow> Some (Inl e)
       | Inr d \<Rightarrow> unpack_map_loop rt ld1 n d fp') = None \<or>
      (case dict_setitem rt d k v of
         Inl TypeError \<Rightarrow> Some (Inl UnhashableKeyException)
       | Inl e \<Rightarrow> Some (Inl e)
       | Inr d \<Rightarrow> unpack_map_loop rt ld2 n d fp')
      = (case dict_setitem rt d k v of
         Inl TypeError \<Rightarrow> Some (Inl UnhashableKeyException)
       | Inl e \<Rightarrow> Some (Inl e)
       | Inr d \<Rightarrow> unpack_map_loop rt ld1 n d fp')" for k v fp'
    using Suc.IH by (auto split: sum.splits error.splits)
  have val: "bind_r (ld1 fp') (\<lambda>(v, fp).
         case dict_setitem rt d k v of
           Inl TypeError \<Rightarrow> Some (Inl UnhashableKeyException)
         | Inl e \<Rightarrow> Some (Inl e)
         | Inr d \<Rightarrow> unpack_map_loop rt ld1 n d fp) = None \<or>
      bind_r (ld2 fp') (\<lambda>(v, fp).
         case dict_setitem rt d k v of
           Inl TypeError \<Rightarrow> Some (Inl UnhashableKeyException)
         | Inl e \<Rightarrow> Some (Inl e)
         | Inr d \<Rightarrow> unpack_map_loop rt ld2 n d fp)
      = bind_r (ld1 fp') (\<lambda>(v, fp).
         case dict_setitem rt d k v of
           Inl TypeError \<Rightarrow> Some (Inl UnhashableKeyException)
         | Inl e \<Rightarrow> Some (Inl e)
         | Inr d \<Rightarrow> unpack_map_loop rt ld1 n d fp)" for k fp'
  proof (rule bind_r_le[OF ld])
    fix x :: "pyval \<times> source"
    obtain v fp2 where x: "x = (v, fp2)" by (cases x)
    show "(case x of (v, fp) \<Rightarrow>
         case dict_setitem rt d k v of
           Inl TypeError \<Rightarrow> Some (Inl UnhashableKeyException)
         | Inl e \<Rightarrow> Some (Inl e)
         | Inr d \<Rightarrow> unpack_map_loop rt ld1 n d fp) = None \<or>
      (case x of (v, fp) \<Rightarrow>
         case dict_setitem rt d k v of
           Inl TypeError \<Rightarrow> Some (Inl UnhashableKeyException)
         | Inl e \<Rightarrow> Some (Inl e)
         | Inr d \<Rightarrow> unpack_map_loop rt ld2 n d fp)
      = (case x of (v, fp) \<Rightarrow>
         case dict_setitem rt d k v of
           Inl TypeError \<Rightarrow> Some (Inl UnhashableKeyException)
         | Inl e \<Rightarrow> Some (Inl e)
         | Inr d \<Rightarrow> unpack_map_loop rt ld1 n d fp)"
      unfolding x prod.case by (rule store)
  qed
  show ?case
    unfolding unpack_map_loop.simps
    by (rule bind_r_le[OF ld]) (simp add: Let_def val split: prod.splits)
qed

lemma unpack_array_le:
  assumes ld: "\<And>fp. ld1 fp = None \<or> ld2 fp = ld1 fp"
  shows "unpack_array ld1 code fp options = None \<or>
         unpack_array ld2 code fp options = unpack_array ld1 code fp options"
proof -
  have inner: "bind_r (unpack_items ld1 n fp')
          (\<lambda>(g, fp). Some (Inr (if use_tuple options then PTuple g else PList g, fp))) = None \<or>
        bind_r (unpack_items ld2 n fp')
          (\<lambda>(g, fp). Some (Inr (if use_tuple options then PTuple g else PList g, fp)))
        = bind_r (unpack_items ld1 n fp')
          (\<lambda>(g, fp). Some (Inr (if use_tuple options then PTuple g else PList g, fp)))" for n fp'
    by (rule bind_r_le[OF unpack_items_le[of ld1 ld2, OF ld]]) simp
  show ?thesis
    unfolding unpack_array_def Let_def
    by (rule bind_r_le) (simp_all add: inner split: prod.splits)
qed

lemma unpack_map_le:
  assumes ld: "\<And>fp. ld1 fp = None \<or> ld2 fp = ld1 fp"
  shows "unpack_map rt ld1 code fp options = None \<or>
         unpack_map rt ld2 code fp options = unpack_map rt ld1 code fp options"
proof -
  have inner: "bind_r (unpack_map_loop rt ld1 n [] fp')
          (\<lambda>(d, fp). Some (Inr (PDict (use_ordered_dict options) d, fp))) = None \<or>
        bind_r (unpack_map_loop rt ld2 n [] fp')
          (\<lambda>(d, fp). Some (Inr (PDict (use_ordered_dict options) d, fp)))
        = bind_r (unpack_map_loop rt ld1 n [] fp')
          (\<lambda>(d, fp). Some (Inr (PDict (use_ordered_dict options) d, fp)))" for n fp'
    by (rule bind_r_le[OF unpack_map_loop_le[of ld1 ld2, OF ld]]) simp
  show ?thesis
    unfolding unpack_map_def Let_def
    by (rule bind_r_le) (simp_all add: inner split: prod.splits)
qed

lemma load_code_le:
  assumes ld: "\<And>fp. ld1 fp = None \<or> ld2 fp = ld1 fp"
  shows "load_code rt ld1 code fp options = None \<or>
         load_code rt ld2 code fp options = load_code rt ld1 code fp options"
  unfolding load_code_table
  using unpack_array_le[of ld1 ld2 code fp options, OF ld]
    unpack_map_le[of ld1 ld2 rt code fp options, OF ld]
  by (cases "wire_table (uint code)") simp_all

lemma load_body_le:
  assumes ld: "\<And>fp. ld1 fp = None \<or> ld2 fp = ld1 fp"
  shows "bind_r (Some (read_except fp 1)) (\<lambda>(code, fp).
           (case code of [c] \<Rightarrow> load_code rt ld1 c fp options | _ \<Rightarrow> Some (Inl TypeError))) = None \<or>
         bind_r (Some (read_except fp 1)) (\<lambda>(code, fp).
           (case code of [c] \<Rightarrow> load_code rt ld2 c fp options | _ \<Rightarrow> Some (Inl TypeError)))
         = bind_r (Some (read_except fp 1)) (\<lambda>(code, fp).
           (case code of [c] \<Rightarrow> load_code rt ld1 c fp options | _ \<Rightarrow> Some (Inl TypeError)))"
proof (rule bind_r_le)
  show "Some (read_except fp 1) = None \<or> Some (read_except fp 1) = Some (read_except fp 1)"
    by simp
next
  fix x :: "byte list \<times> source"
  obtain code fp' where x: "x = (code, fp')" by (cases x)
  show "(case x of (code, fp) \<Rightarrow>
           (case code of [c] \<Rightarrow> load_code rt ld1 c fp options | _ \<Rightarrow> Some (Inl TypeError))) = None \<or>
        (case x of (code, fp) \<Rightarrow>
           (case code of [c] \<Rightarrow> load_code rt ld2 c fp options | _ \<Rightarrow> Some (Inl TypeError)))
        = (case x of (code, fp) \<Rightarrow>
           (case code of [c] \<Rightarrow> load_code rt ld1 c fp options | _ \<Rightarrow> Some (Inl TypeError)))"
    unfolding x prod.case
    using load_code_le[of ld1 ld2, OF ld] by (simp split: list.splits)
qed

lemma load_Suc:
  "load depth rt fp options = None \<or> load (Suc depth) rt fp options = load depth rt fp options"
proof (induction depth arbitrary: fp)
  case 0
  then show ?case by simp
next
  case (Suc depth)
  have 1: "load (Suc depth) rt fp options =
      bind_r (Some (read_except fp 1)) (\<lambda>(code, fp).
        (case code of [c] \<Rightarrow> load_code rt (\<lambda>fp. load depth rt fp options) c fp options
         | _ \<Rightarrow> Some (Inl TypeError)))"
    by (rule load.simps(2))
  have 2: "load (Suc (Suc depth)) rt fp options =
      bind_r (Some (read_except fp 1)) (\<lambda>(code, fp).
        (case code of [c] \<Rightarrow> load_code rt (\<lambda>fp. load (Suc depth) rt fp options) c fp options
         | _ \<Rightarrow> Some (Inl TypeError)))"
    by (rule load.simps(2))
  show ?case
    unfolding 2 1
    by (rule load_body_le[of "\<lambda>fp. load depth rt fp options"
          "\<lambda>fp. load (Suc depth) rt fp options", OF Suc.IH])
qed

lemma load_mono:
  assumes "load depth rt fp options = Some r" and "depth \<le> depth'"
  shows "load depth' rt fp options = Some r"
  using assms(2,1)
proof (induction depth' rule: dec_induct)
  case base
  then show ?case by simp
next
  case (step n)
  then show ?case using load_Suc[of n rt fp options] by auto
qed

subsection \<open>One level of depth for each byte is enough\<close>

lemma ready_le_buf: "length (ready fp) \<le> length (buf fp)"
proof -
  have "concat (pending fp) =
        concat (takeWhile (\<lambda>c. c \<noteq> []) (pending fp)) @ concat (dropWhile (\<lambda>c. c \<noteq> []) (pending fp))"
    by (simp flip: concat_append)
  then show ?thesis by (simp add: ready_def buf_def)
qed

lemma read_except_shrink:
  "read_except fp n = Inr (data, fp') \<Longrightarrow> length (buf fp') + n \<le> length (buf fp)"
  using read_except_Inr(1,2,3)[of fp n data fp'] ready_le_buf[of fp] by simp

lemma re0_shrink: "re0 s fp n = Inr (v, fp') \<Longrightarrow> length (buf fp') \<le> length (buf fp)"
  by (auto simp: re0_def bind_e_def split: sum.splits dest!: read_except_shrink)

lemma unpack_integer_shrink:
  "unpack_integer code fp = Inr (v, fp') \<Longrightarrow> length (buf fp') \<le> length (buf fp)"
  by (auto simp: unpack_integer_def Let_def bind_e_def split: sum.splits if_splits
        dest!: re0_shrink)

lemma unpack_float_shrink:
  "unpack_float code fp = Inr (v, fp') \<Longrightarrow> length (buf fp') \<le> length (buf fp)"
  by (auto simp: unpack_float_def Let_def split: if_splits dest!: re0_shrink)

lemma unpack_string_shrink:
  "unpack_string rt code fp options = Inr (v, fp') \<Longrightarrow> length (buf fp') \<le> length (buf fp)"
  by (auto simp: unpack_string_def Let_def bind_e_def split: sum.splits if_splits prod.splits
        dest!: re0_shrink read_except_shrink)

lemma unpack_binary_shrink:
  "unpack_binary code fp = Inr (v, fp') \<Longrightarrow> length (buf fp') \<le> length (buf fp)"
  by (auto simp: unpack_binary_def Let_def bind_e_def split: sum.splits if_splits prod.splits
        dest!: re0_shrink read_except_shrink)

lemma unpack_ext_shrink:
  "unpack_ext rt code fp options = Inr (v, fp') \<Longrightarrow> length (buf fp') \<le> length (buf fp)"
  by (auto simp: unpack_ext_def Let_def bind_e_def
        split: sum.splits if_splits prod.splits option.splits raised.splits
        dest!: re0_shrink read_except_shrink)

lemma unpack_items_total:
  assumes ld1: "\<And>fp. length (buf fp) \<le> N \<Longrightarrow> ld fp \<noteq> None"
    and ld2: "\<And>fp v fp'. length (buf fp) \<le> N \<Longrightarrow> ld fp = Some (Inr (v, fp'))
                \<Longrightarrow> length (buf fp') \<le> N"
  shows "length (buf fp) \<le> N \<Longrightarrow>
         unpack_items ld n fp \<noteq> None \<and>
         (\<forall>vs fp'. unpack_items ld n fp = Some (Inr (vs, fp')) \<longrightarrow> length (buf fp') \<le> N)"
proof (induction n arbitrary: fp)
  case 0
  then show ?case by simp
next
  case (Suc n)
  from ld1[OF Suc.prems] obtain r where r: "ld fp = Some r" by auto
  show ?case
  proof (cases r)
    case (Inl e)
    with r show ?thesis by (simp add: bind_r_simps)
  next
    case (Inr p)
    obtain v fp1 where p: "p = (v, fp1)" by (cases p)
    have b: "length (buf fp1) \<le> N" using ld2[OF Suc.prems] r Inr p by simp
    from Suc.IH[OF b] r Inr p show ?thesis
      by (auto simp: bind_r_def split: option.splits sum.splits)
  qed
qed

lemma unpack_map_loop_total:
  assumes ld1: "\<And>fp. length (buf fp) \<le> N \<Longrightarrow> ld fp \<noteq> None"
    and ld2: "\<And>fp v fp'. length (buf fp) \<le> N \<Longrightarrow> ld fp = Some (Inr (v, fp'))
                \<Longrightarrow> length (buf fp') \<le> N"
  shows "length (buf fp) \<le> N \<Longrightarrow>
         unpack_map_loop rt ld n d fp \<noteq> None \<and>
         (\<forall>d' fp'. unpack_map_loop rt ld n d fp = Some (Inr (d', fp')) \<longrightarrow> length (buf fp') \<le> N)"
proof (induction n arbitrary: d fp)
  case 0
  then show ?case by simp
next
  case (Suc n)
  from ld1[OF Suc.prems] obtain r where r: "ld fp = Some r" by auto
  show ?case
  proof (cases r)
    case (Inl e)
    with r show ?thesis by (simp add: bind_r_simps)
  next
    case (Inr p)
    obtain k fp1 where p: "p = (k, fp1)" by (cases p)
    have k: "ld fp = Some (Inr (k, fp1))" using r Inr p by simp
    have b: "length (buf fp1) \<le> N" using ld2[OF Suc.prems k] .
    from ld1[OF b] obtain r2 where r2: "ld fp1 = Some r2" by auto
    show ?thesis
    proof (cases r2)
      case (Inl e)
      with r2 show ?thesis
        unfolding unpack_map_loop_step[of ld fp k fp1, OF k] Let_def
        by (simp add: bind_r_simps)
    next
      case (Inr q)
      obtain v fp2 where q: "q = (v, fp2)" by (cases q)
      have b2: "length (buf fp2) \<le> N" using ld2[OF b] r2 Inr q by simp
      from Suc.IH[OF b2] r2 Inr q show ?thesis
        unfolding unpack_map_loop_step[of ld fp k fp1, OF k] Let_def
        by (simp add: bind_r_simps)
    qed
  qed
qed

lemma header_total:
  assumes "length (buf fp) \<le> N"
    and "(if c0 then Inr (v, fp) else if c1 then re0 s1 fp n1
          else if c2 then re0 s2 fp n2 else Inl e) = Inr (l, fp1)"
  shows "length (buf fp1) \<le> N"
  using assms by (auto split: if_splits dest!: re0_shrink)

lemma unpack_array_total:
  assumes ld1: "\<And>fp. length (buf fp) \<le> N \<Longrightarrow> ld fp \<noteq> None"
    and ld2: "\<And>fp v fp'. length (buf fp) \<le> N \<Longrightarrow> ld fp = Some (Inr (v, fp'))
                \<Longrightarrow> length (buf fp') \<le> N"
    and b: "length (buf fp) \<le> N"
  shows "unpack_array ld code fp options \<noteq> None \<and>
         (\<forall>v fp'. unpack_array ld code fp options = Some (Inr (v, fp')) \<longrightarrow> length (buf fp') \<le> N)"
proof -
  let ?h = "if uint code AND 0xf0 = 0x90 then Inr (PInt (uint code AND NOT 0xf0), fp)
            else if uint code = 0xdc then re0 ''>H'' fp 2
            else if uint code = 0xdd then re0 ''>I'' fp 4
            else Inl LogicError"
  show ?thesis
  proof (cases ?h)
    case (Inl e)
    then show ?thesis by (simp add: unpack_array_def Let_def bind_r_simps)
  next
    case (Inr p)
    obtain l fp1 where p: "p = (l, fp1)" by (cases p)
    have "length (buf fp1) \<le> N" using header_total[OF b] Inr p by blast
    from unpack_items_total[where ld = ld and N = N and n = "nat (the_int l)", OF ld1 ld2 this] Inr p
    show ?thesis
      by (auto simp: unpack_array_def Let_def bind_r_def split: option.splits sum.splits)
  qed
qed

lemma unpack_map_total:
  assumes ld1: "\<And>fp. length (buf fp) \<le> N \<Longrightarrow> ld fp \<noteq> None"
    and ld2: "\<And>fp v fp'. length (buf fp) \<le> N \<Longrightarrow> ld fp = Some (Inr (v, fp'))
                \<Longrightarrow> length (buf fp') \<le> N"
    and b: "length (buf fp) \<le> N"
  shows "unpack_map rt ld code fp options \<noteq> None \<and>
         (\<forall>v fp'. unpack_map rt ld code fp options = Some (Inr (v, fp')) \<longrightarrow> length (buf fp') \<le> N)"
proof -
  let ?h = "if uint code AND 0xf0 = 0x80 then Inr (PInt (uint code AND NOT 0xf0), fp)
            else if uint code = 0xde then re0 ''>H'' fp 2
            else if uint code = 0xdf then re0 ''>I'' fp 4
            else Inl LogicError"
  show ?thesis
  proof (cases ?h)
    case (Inl e)
    then show ?thesis by (simp add: unpack_map_def Let_def bind_r_simps)
  next
    case (Inr p)
    obtain l fp1 where p: "p = (l, fp1)" by (cases p)
    have "length (buf fp1) \<le> N" using header_total[OF b] Inr p by blast
    from unpack_map_loop_total[where ld = ld and N = N and n = "nat (the_int l)" and rt = rt
        and d = "[]", OF ld1 ld2 this] Inr p
    show ?thesis
      by (auto simp: unpack_map_def Let_def bind_r_def split: option.splits sum.splits)
  qed
qed

lemma load_code_total:
  assumes ld1: "\<And>fp. length (buf fp) \<le> N \<Longrightarrow> ld fp \<noteq> None"
    and ld2: "\<And>fp v fp'. length (buf fp) \<le> N \<Longrightarrow> ld fp = Some (Inr (v, fp'))
                \<Longrightarrow> length (buf fp') \<le> N"
    and b: "length (buf fp) \<le> N"
  shows "load_code rt ld code fp options \<noteq> None \<and>
         (\<forall>v fp'. load_code rt ld code fp options = Some (Inr (v, fp')) \<longrightarrow> length (buf fp') \<le> N)"
proof (cases "wire_table (uint code)")
  case RInteger
  then show ?thesis using unpack_integer_shrink[of code fp] b
    by (auto simp: load_code_table dest: order_trans)
next
  case RFloat
  then show ?thesis using unpack_float_shrink[of code fp] b
    by (auto simp: load_code_table dest: order_trans)
next
  case RNilBool
  then show ?thesis using b by (simp add: load_code_table)
next
  case RString
  then show ?thesis using unpack_string_shrink[of rt code fp options] b
    by (auto simp: load_code_table dest: order_trans)
next
  case RBinary
  then show ?thesis using unpack_binary_shrink[of code fp] b
    by (auto simp: load_code_table dest: order_trans)
next
  case RArray
  then show ?thesis
    using unpack_array_total[where ld = ld and N = N and fp = fp, OF ld1 ld2 b]
    by (simp add: load_code_table)
next
  case RMap
  then show ?thesis
    using unpack_map_total[where ld = ld and N = N and fp = fp, OF ld1 ld2 b]
    by (simp add: load_code_table)
next
  case RExt
  then show ?thesis using unpack_ext_shrink[of rt code fp options] b
    by (auto simp: load_code_table dest: order_trans)
next
  case RReserved
  then show ?thesis by (simp add: load_code_table)
qed

lemma load_total:
  "length (buf fp) \<le> N \<Longrightarrow> N < depth \<Longrightarrow>
   load depth rt fp options \<noteq> None \<and>
   (\<forall>v fp'. load depth rt fp options = Some (Inr (v, fp')) \<longrightarrow> length (buf fp') \<le> N)"
proof (induction depth arbitrary: fp N)
  case 0
  then show ?case by simp
next
  case (Suc depth)
  show ?case
  proof (cases "read_except fp 1")
    case (Inl e)
    then show ?thesis by (simp add: bind_r_simps)
  next
    case (Inr p)
    obtain data fp1 where p: "p = (data, fp1)" by (cases p)
    have rd: "read_except fp 1 = Inr (data, fp1)" using Inr p by simp
    have "length data = 1" using read_except_Inr(1)[OF rd] .
    then obtain c where c: "data = [c]" by (cases data) auto
    have sh: "length (buf fp1) + 1 \<le> length (buf fp)" using read_except_shrink[OF rd] .
    with Suc.prems have N: "length (buf fp1) \<le> N - 1" "N - 1 < depth" by auto
    have "load_code rt (\<lambda>fp. load depth rt fp options) c fp1 options \<noteq> None \<and>
         (\<forall>v fp'. load_code rt (\<lambda>fp. load depth rt fp options) c fp1 options = Some (Inr (v, fp'))
            \<longrightarrow> length (buf fp') \<le> N - 1)"
    proof (rule load_code_total[where N = "N - 1", OF _ _ N(1)])
      fix fpa assume "length (buf fpa) \<le> N - 1"
      from Suc.IH[OF this N(2)] show "load depth rt fpa options \<noteq> None" by simp
    next
      fix fpa v fp' assume "length (buf fpa) \<le> N - 1" "load depth rt fpa options = Some (Inr (v, fp'))"
      with Suc.IH[OF this(1) N(2)] show "length (buf fp') \<le> N - 1" by simp
    qed
    then show ?thesis
      using rd c by (auto simp: bind_r_simps)
  qed
qed

lemma load_enough_depth:
  "\<exists>r. load (Suc (length (buf fp))) rt fp options = Some r"
  using load_total[of fp "length (buf fp)" "Suc (length (buf fp))" rt options] by auto

subsection \<open>Trailing bytes and truncated buffers\<close>

lemma encoded_valueD:
  assumes "encoded_value rt options s v"
  obtains fp' where "load (Suc (length s)) rt (BytesIO s) options = Some (Inr (v, fp'))"
    and "buf fp' = []"
  using assms
  by (auto simp: encoded_value_def split: option.splits sum.splits)

lemma longer_BytesIO: "longer t (BytesIO s) (BytesIO (s @ t))"
  by (simp add: longer_def buffered_BytesIO)

text \<open>
  C9.  Decoding stops after one complete value.  For a buffer that is a complete encoding
  of a value followed by any bytes at all, \<open>loads\<close> returns that value: what follows is
  never read into the result and never raises an error.
\<close>

theorem loads_ignores_trailing:
  assumes "encoded_value rt options s v"
  shows "loads rt (s @ t) options = Some (Inr v)"
proof -
  from assms obtain fp' where
    l: "load (Suc (length s)) rt (BytesIO s) options = Some (Inr (v, fp'))"
    by (rule encoded_valueD)
  from agree_load[OF longer_BytesIO[of t s], where depth = "Suc (length s)"
      and rt = rt and options = options] l
  obtain fp2 where "load (Suc (length s)) rt (BytesIO (s @ t)) options = Some (Inr (v, fp2))"
    by (auto simp: agree_r_def agree_e_def simp del: load.simps)
  then have "load (Suc (length (s @ t))) rt (BytesIO (s @ t)) options = Some (Inr (v, fp2))"
    by (rule load_mono) simp
  then show ?thesis by (simp add: loads_def bind_r_simps del: load.simps)
qed

text \<open>
  C2.  For a byte string that is a complete encoding of a value, decoding any strict
  prefix of it fails with \<open>InsufficientDataException\<close>: it returns no value and no other
  error.
\<close>

theorem truncated_insufficient:
  assumes "encoded_value rt options s v" and "n < length s"
  shows "loads rt (take n s) options = Some (Inl InsufficientDataException)"
proof -
  from assms(1) obtain fp' where
    l: "load (Suc (length s)) rt (BytesIO s) options = Some (Inr (v, fp'))" and e: "buf fp' = []"
    by (rule encoded_valueD)
  let ?p = "take n s" and ?t = "drop n s"
  have t: "?t \<noteq> []" using assms(2) by simp
  have len: "length ?p = n" using assms(2) by simp
  obtain x where x: "load (Suc n) rt (BytesIO ?p) options = Some x"
    using load_enough_depth[of "BytesIO ?p" rt options] len
    by (auto simp: buffered_BytesIO simp del: load.simps)
  have a: "agree_r ?t (load (Suc n) rt (BytesIO ?p) options) (load (Suc n) rt (BytesIO s) options)"
    using agree_load[OF longer_BytesIO[of ?t ?p], where depth = "Suc n"
        and rt = rt and options = options]
    by (simp del: load.simps)
  have "x = Inl InsufficientDataException"
  proof (rule ccontr)
    assume n: "x \<noteq> Inl InsufficientDataException"
    with a x obtain y where y: "load (Suc n) rt (BytesIO s) options = Some y" "agree_e ?t x y"
      by (auto simp: agree_r_def simp del: load.simps)
    from load_mono[OF y(1), of "Suc (length s)"] assms(2) l
    have y': "y = Inr (v, fp')" by (simp del: load.simps)
    show False
    proof (cases x)
      case (Inl e')
      with y(2) y' n show False by (simp add: agree_e_def)
    next
      case (Inr q)
      with y(2) y' e t show False by (auto simp: agree_e_def longer_def)
    qed
  qed
  with x have "load (Suc (length ?p)) rt (BytesIO ?p) options = Some (Inl InsufficientDataException)"
    unfolding len by simp
  then show ?thesis
    unfolding loads_def by (simp only: bind_r_simps)
qed

lemma example_encoding:
  "encoded_value plain_runtime no_options [0x92, 0x01, 0x02] (PList [PInt 1, PInt 2])"
  by code_simp

theorem loads_ignores_trailing_witness:
  "encoded_value plain_runtime no_options [0x92, 0x01, 0x02] (PList [PInt 1, PInt 2]) \<and>
   loads plain_runtime ([0x92, 0x01, 0x02] @ [0xc1, 0xff]) no_options
     = Some (Inr (PList [PInt 1, PInt 2]))"
  using loads_ignores_trailing[OF example_encoding, of "[0xc1, 0xff]"] example_encoding
  by blast

theorem truncated_insufficient_witness:
  "encoded_value plain_runtime no_options [0x92, 0x01, 0x02] (PList [PInt 1, PInt 2]) \<and>
   (2 :: nat) < length [0x92, 0x01, 0x02 :: byte] \<and>
   loads plain_runtime (take 2 [0x92, 0x01, 0x02]) no_options
     = Some (Inl InsufficientDataException)"
proof -
  have "(2 :: nat) < length [0x92, 0x01, 0x02 :: byte]" by simp
  from truncated_insufficient[OF example_encoding this] example_encoding this
  show ?thesis by blast
qed

end
